theory Spec2Isabelle
  imports Main
begin

section \<open>Values, errors and the runtime the program calls\<close>

text \<open>
  A CSV cell reaches the validator as a Python \<^verbatim>\<open>str\<close> or as \<^verbatim>\<open>None\<close>; the fields of
  a validated record are \<^verbatim>\<open>str\<close>, \<^verbatim>\<open>int\<close>, \<^verbatim>\<open>float\<close> and \<^verbatim>\<open>datetime.date\<close>
  objects. The type \<open>'f\<close> stands for Python and SQLite floating-point numbers and \<open>'d\<close>
  for calendar dates. A \<open>char\<close> stands for a code point below 256.
\<close>

datatype ('f, 'd) pyval = PNone | PStr string | PInt int | PFloat 'f | PDate 'd

text \<open>
  The exceptions the modelled statements can raise. \<open>NotNullViolation\<close> and
  \<open>DatatypeMismatch\<close> are the two messages of \<^verbatim>\<open>sqlite3.IntegrityError\<close> that the
  schema of \<^verbatim>\<open>db_manager.py\<close> can produce; \<open>OperationalError\<close> is a failure of the
  storage layer itself (disk, lock), which can strike at any statement.
\<close>

datatype error = AttributeError | OverflowError | NotNullViolation | DatatypeMismatch
  | OperationalError

text \<open>
  What SQLite stores in a column of INTEGER (that is, NUMERIC) affinity: text that is a
  well-formed number is converted, anything else stays text.
\<close>

datatype 'f sqlval = SInt int | SReal 'f | SText string

text \<open>
  The builtins of Python and of SQLite that the source calls are not code of the
  repository. They are parameters of the model, collected in one record:
  \<^item> \<open>py_int\<close>, \<open>py_float\<close>: \<^verbatim>\<open>int(s)\<close> and \<^verbatim>\<open>float(s)\<close> on a string, \<open>None\<close> where
    Python raises \<^verbatim>\<open>ValueError\<close>;
  \<^item> \<open>py_strptime s fmt\<close>: \<^verbatim>\<open>datetime.strptime(s, fmt).date()\<close>, \<open>None\<close> on \<^verbatim>\<open>ValueError\<close>;
  \<^item> \<open>py_float_truth\<close>: the truth value of a float (false for zero);
  \<^item> \<open>py_mul\<close>, \<open>py_sum\<close>, \<open>py_round2\<close>: \<^verbatim>\<open>qty * price\<close>, the builtin \<^verbatim>\<open>sum\<close> (whose
    value on no summand, the integer 0, is a value of \<open>'f\<close> here) and \<^verbatim>\<open>round(x, 2)\<close>;
  \<^item> \<open>sql_affinity\<close>: the conversion SQLite applies to text bound to an INTEGER column;
  \<^item> \<open>sql_real\<close>: the value SQLite stores for a bound float (NULL for a NaN);
  \<^item> \<open>sql_mul\<close>, \<open>sql_sum\<close>, \<open>sql_less\<close>: SQLite's \<^verbatim>\<open>quantity * unit_price\<close>, its
    \<^verbatim>\<open>SUM\<close> over a non-empty group and its ordering of REAL values.
\<close>

record ('f, 'd) runtime =
  py_int :: "string \<Rightarrow> int option"
  py_float :: "string \<Rightarrow> 'f option"
  py_strptime :: "string \<Rightarrow> string \<Rightarrow> 'd option"
  py_float_truth :: "'f \<Rightarrow> bool"
  py_mul :: "int \<Rightarrow> 'f \<Rightarrow> 'f"
  py_sum :: "'f list \<Rightarrow> 'f"
  py_round2 :: "'f \<Rightarrow> 'f"
  sql_affinity :: "string \<Rightarrow> 'f sqlval"
  sql_real :: "'f \<Rightarrow> 'f option"
  sql_mul :: "int \<Rightarrow> 'f \<Rightarrow> 'f"
  sql_sum :: "'f list \<Rightarrow> 'f"
  sql_less :: "'f \<Rightarrow> 'f \<Rightarrow> bool"

section \<open>The row validator (data\_validator.py)\<close>

text \<open>\<^verbatim>\<open>str.strip()\<close>: the whitespace code points below 256.\<close>

definition is_space :: "char \<Rightarrow> bool" where
  "is_space c = (of_char c \<in> {9, 10, 11, 12, 13, 28, 29, 30, 31, 32, 133, 160 :: nat})"

definition strip :: "string \<Rightarrow> string" where
  "strip s = rev (dropWhile is_space (rev (dropWhile is_space s)))"

text \<open>A raw row is a dict; \<^verbatim>\<open>row.get(k)\<close> is \<^verbatim>\<open>None\<close> for an absent key.\<close>

type_synonym ('f, 'd) raw_row = "string \<rightharpoonup> ('f, 'd) pyval"

definition row_get :: "('f, 'd) raw_row \<Rightarrow> string \<Rightarrow> ('f, 'd) pyval" where
  "row_get row k = (case row k of None \<Rightarrow> PNone | Some v \<Rightarrow> v)"

text \<open>
  The three field parsers call \<^verbatim>\<open>value.strip()\<close> outside any \<^verbatim>\<open>try\<close>: a value that
  is neither \<^verbatim>\<open>None\<close> nor a string has no such method and raises \<^verbatim>\<open>AttributeError\<close>.
\<close>

fun parse_string_field :: "('f, 'd) pyval \<Rightarrow> error + string option" where
  "parse_string_field PNone = Inr None"
| "parse_string_field (PStr s) = (if strip s = [] then Inr None else Inr (Some (strip s)))"
| "parse_string_field _ = Inl AttributeError"

fun parse_int_field :: "('f, 'd) runtime \<Rightarrow> ('f, 'd) pyval \<Rightarrow> error + int option" where
  "parse_int_field R PNone = Inr None"
| "parse_int_field R (PStr s) = (if strip s = [] then Inr None else Inr (py_int R (strip s)))"
| "parse_int_field R _ = Inl AttributeError"

fun parse_float_field :: "('f, 'd) runtime \<Rightarrow> ('f, 'd) pyval \<Rightarrow> error + 'f option" where
  "parse_float_field R PNone = Inr None"
| "parse_float_field R (PStr s) = (if strip s = [] then Inr None else Inr (py_float R (strip s)))"
| "parse_float_field R _ = Inl AttributeError"

text \<open>The formats of \<^verbatim>\<open>_parse_date\<close>, in the order of its \<^verbatim>\<open>for\<close> loop.\<close>

definition date_formats :: "string list" where
  "date_formats = [''%Y-%m-%d'', ''%d/%m/%Y'', ''%Y/%m/%d'', ''%B %d %Y'']"

text \<open>The loop: return at the first format that parses, \<^verbatim>\<open>continue\<close> on \<^verbatim>\<open>ValueError\<close>.\<close>

fun try_formats :: "('f, 'd) runtime \<Rightarrow> string \<Rightarrow> string list \<Rightarrow> 'd option" where
  "try_formats R s [] = None"
| "try_formats R s (fmt # fmts) =
     (case py_strptime R (strip s) fmt of
        Some d \<Rightarrow> Some d
      | None \<Rightarrow> try_formats R s fmts)"

text \<open>\<^verbatim>\<open>not value\<close>: \<^verbatim>\<open>None\<close>, the empty string and a zero are false; a date is true.\<close>

fun truthy :: "('f, 'd) runtime \<Rightarrow> ('f, 'd) pyval \<Rightarrow> bool" where
  "truthy R PNone = False"
| "truthy R (PStr s) = (s \<noteq> [])"
| "truthy R (PInt n) = (n \<noteq> 0)"
| "truthy R (PFloat x) = py_float_truth R x"
| "truthy R (PDate d) = True"

definition parse_date :: "('f, 'd) runtime \<Rightarrow> ('f, 'd) pyval \<Rightarrow> error + 'd option" where
  "parse_date R v =
     (if \<not> truthy R v then Inr None
      else case v of
        PStr s \<Rightarrow> Inr (try_formats R s date_formats)
      | _ \<Rightarrow> Inl AttributeError)"

record ('f, 'd) validated =
  customer_id :: "string option"
  order_id :: "string option"
  item :: "string option"
  quantity :: "int option"
  unit_price :: "'f option"
  date :: "'d option"
  is_valid :: bool
  error_message :: "string option"

text \<open>\<^verbatim>\<open>"; ".join(errors)\<close>\<close>

fun py_join :: "string \<Rightarrow> string list \<Rightarrow> string" where
  "py_join sep [] = []"
| "py_join sep [x] = x"
| "py_join sep (x # y # ys) = x @ sep @ py_join sep (y # ys)"

text \<open>\<^verbatim>\<open>if field is None: errors.append("Invalid or missing <name>")\<close>\<close>

definition missing :: "'a option \<Rightarrow> string \<Rightarrow> string list" where
  "missing field name = (if field = None then [''Invalid or missing '' @ name] else [])"

text \<open>
  The list \<^verbatim>\<open>errors\<close> of \<^verbatim>\<open>_validate_row\<close> once all six fields are parsed.
\<close>

definition row_errors ::
  "string option \<Rightarrow> string option \<Rightarrow> string option \<Rightarrow> int option \<Rightarrow> 'f option \<Rightarrow> 'd option
     \<Rightarrow> string list" where
  "row_errors c oid it q p d =
     missing c ''customer_id'' @ missing oid ''order_id'' @ missing it ''item'' @
     missing q ''quantity'' @ missing p ''unit_price'' @ missing d ''date''"

definition validate_row ::
  "('f, 'd) runtime \<Rightarrow> ('f, 'd) raw_row \<Rightarrow> error + ('f, 'd) validated" where
  "validate_row R row =
     (case parse_string_field (row_get row ''customer_id'') of Inl e \<Rightarrow> Inl e | Inr c \<Rightarrow>
      case parse_string_field (row_get row ''order_id'') of Inl e \<Rightarrow> Inl e | Inr oid \<Rightarrow>
      case parse_string_field (row_get row ''item'') of Inl e \<Rightarrow> Inl e | Inr it \<Rightarrow>
      case parse_int_field R (row_get row ''quantity'') of Inl e \<Rightarrow> Inl e | Inr q \<Rightarrow>
      case parse_float_field R (row_get row ''unit_price'') of Inl e \<Rightarrow> Inl e | Inr p \<Rightarrow>
      case parse_date R (row_get row ''date'') of Inl e \<Rightarrow> Inl e | Inr d \<Rightarrow>
        Inr \<lparr> customer_id = c, order_id = oid, item = it, quantity = q, unit_price = p,
              date = d,
              is_valid = (row_errors c oid it q p d = []),
              error_message =
                (if row_errors c oid it q p d = [] then None
                 else Some (py_join ''; '' (row_errors c oid it q p d))) \<rparr>)"

text \<open>
  The loop of \<^verbatim>\<open>valid_order_rows_flexible\<close> over the rows of the reader (keys already
  normalised), with its set \<^verbatim>\<open>seen_orders\<close>. The caller consumes the generator with
  \<^verbatim>\<open>list(...)\<close>, so an exception in any row loses the whole batch.
\<close>

fun rows_loop ::
  "('f, 'd) runtime \<Rightarrow> (string option \<times> string option) set \<Rightarrow> ('f, 'd) raw_row list
     \<Rightarrow> error + ('f, 'd) validated list" where
  "rows_loop R seen [] = Inr []"
| "rows_loop R seen (row # rows) =
     (case validate_row R row of
        Inl e \<Rightarrow> Inl e
      | Inr result \<Rightarrow>
          if is_valid result then
            if (order_id result, item result) \<in> seen then
              (case rows_loop R seen rows of
                 Inl e \<Rightarrow> Inl e
               | Inr rest \<Rightarrow>
                   Inr (result \<lparr> is_valid := False,
                                error_message := Some ''Duplicate order_id and item'' \<rparr> # rest))
            else
              (case rows_loop R (insert (order_id result, item result) seen) rows of
                 Inl e \<Rightarrow> Inl e
               | Inr rest \<Rightarrow> Inr (result # rest))
          else
            (case rows_loop R seen rows of
               Inl e \<Rightarrow> Inl e
             | Inr rest \<Rightarrow> Inr (result # rest)))"

definition valid_order_rows_flexible ::
  "('f, 'd) runtime \<Rightarrow> ('f, 'd) raw_row list \<Rightarrow> error + ('f, 'd) validated list" where
  "valid_order_rows_flexible R rows = rows_loop R {} rows"

text \<open>The six required fields of a validated record are all present.\<close>

definition all_present :: "('f, 'd) validated \<Rightarrow> bool" where
  "all_present v =
     (customer_id v \<noteq> None \<and> order_id v \<noteq> None \<and> item v \<noteq> None \<and>
      quantity v \<noteq> None \<and> unit_price v \<noteq> None \<and> date v \<noteq> None)"

text \<open>
  A validated record is itself a dict; read as a row, its fields are the typed objects
  the validator produced.
\<close>

definition opt_val :: "('a \<Rightarrow> ('f, 'd) pyval) \<Rightarrow> 'a option \<Rightarrow> ('f, 'd) pyval" where
  "opt_val f x = (case x of None \<Rightarrow> PNone | Some a \<Rightarrow> f a)"

definition as_row :: "('f, 'd) validated \<Rightarrow> ('f, 'd) raw_row" where
  "as_row v =
     [''customer_id'' \<mapsto> opt_val PStr (customer_id v),
      ''order_id'' \<mapsto> opt_val PStr (order_id v),
      ''item'' \<mapsto> opt_val PStr (item v),
      ''quantity'' \<mapsto> opt_val PInt (quantity v),
      ''unit_price'' \<mapsto> opt_val PFloat (unit_price v),
      ''date'' \<mapsto> opt_val PDate (date v)]"

section \<open>The store (db\_manager.py)\<close>

subsection \<open>Tables\<close>

text \<open>
  A table is the list of its rows in the order of their insertion; an update keeps a
  row's place. SQL fixes no order for rows read without \<^verbatim>\<open>ORDER BY\<close>; the properties below
  that speak of sets do not depend on it.

  \<^verbatim>\<open>orders.order_id\<close> is declared \<^verbatim>\<open>INTEGER NOT NULL PRIMARY KEY\<close>: it is the rowid of the
  table and holds integers only. \<^verbatim>\<open>order_items.order_id\<close> and
  \<^verbatim>\<open>staging_order_items.order_id\<close> are \<^verbatim>\<open>INTEGER NOT NULL\<close> columns that hold whatever the
  affinity makes of the bound value. \<^verbatim>\<open>order_items.item\<close> is written by
  \<^verbatim>\<open>_upsert_order_item\<close> only, which never binds NULL, so it is a string here; the
  column \<^verbatim>\<open>order_items.id\<close> is never read and is left out.
\<close>

record ('f, 'd) order_row =
  o_order_id :: int
  o_customer_id :: "'f sqlval option"
  o_order_date :: "'d option"

record 'f item_row =
  i_order_id :: "'f sqlval"
  i_item :: string
  i_quantity :: "int option"
  i_unit_price :: "'f option"
  i_is_valid :: bool
  i_error_message :: "string option"

record ('f, 'd) staging_row =
  s_order_id :: "'f sqlval"
  s_item :: "string option"
  s_quantity :: "int option"
  s_unit_price :: "'f option"
  s_is_valid :: bool
  s_error_message :: "string option"
  s_customer_id :: "'f sqlval option"
  s_order_date :: "'d option"

text \<open>A staging table that does not exist and an empty one are both the empty list.\<close>

record ('f, 'd) db =
  orders :: "('f, 'd) order_row list"
  order_items :: "'f item_row list"
  staging_order_items :: "('f, 'd) staging_row list"

subsection \<open>SQL statements\<close>

text \<open>
  \<^verbatim>\<open>INSERT ... ON CONFLICT(key) DO UPDATE SET ...\<close>: the row that conflicts with the new
  one is updated in place, and without a conflict the new row is appended.
\<close>

fun upsert_row :: "('r \<Rightarrow> bool) \<Rightarrow> ('r \<Rightarrow> 'r) \<Rightarrow> 'r \<Rightarrow> 'r list \<Rightarrow> 'r list" where
  "upsert_row conflicts set_cols new [] = [new]"
| "upsert_row conflicts set_cols new (r # rs) =
     (if conflicts r then set_cols r # rs else r # upsert_row conflicts set_cols new rs)"

text \<open>
  The sqlite3 module binds a Python \<^verbatim>\<open>int\<close> as a signed 64-bit integer and raises
  \<^verbatim>\<open>OverflowError\<close> for any other, before the statement runs.
\<close>

definition bind_int :: "int option \<Rightarrow> error + int option" where
  "bind_int q =
     (case q of
        None \<Rightarrow> Inr None
      | Some n \<Rightarrow>
          if - (2 ^ 63) \<le> n \<and> n < 2 ^ 63 then Inr (Some n) else Inl OverflowError)"

text \<open>
  The \<^verbatim>\<open>INSERT INTO staging_order_items ... ON CONFLICT(order_id, item) DO UPDATE\<close> of
  step 2, for one validated record. \<^verbatim>\<open>order_id\<close> is \<^verbatim>\<open>NOT NULL\<close>. The primary key
  \<^verbatim>\<open>(order_id, item)\<close> of this rowid table admits NULL items, and a NULL never conflicts.
\<close>

definition staged :: "('f, 'd) runtime \<Rightarrow> ('f, 'd) validated \<Rightarrow> 'f sqlval \<Rightarrow> int option
    \<Rightarrow> ('f, 'd) staging_row" where
  "staged R r oid q =
     \<lparr> s_order_id = oid, s_item = item r, s_quantity = q,
       s_unit_price = Option.bind (unit_price r) (sql_real R),
       s_is_valid = is_valid r, s_error_message = error_message r,
       s_customer_id = map_option (sql_affinity R) (customer_id r),
       s_order_date = date r \<rparr>"

definition staging_conflict :: "('f, 'd) staging_row \<Rightarrow> ('f, 'd) staging_row \<Rightarrow> bool" where
  "staging_conflict new x =
     (s_order_id x = s_order_id new \<and> s_item new \<noteq> None \<and> s_item x = s_item new)"

definition staging_set :: "('f, 'd) staging_row \<Rightarrow> ('f, 'd) staging_row \<Rightarrow> ('f, 'd) staging_row" where
  "staging_set new x =
     x \<lparr> s_quantity := s_quantity new, s_unit_price := s_unit_price new,
         s_is_valid := s_is_valid new, s_error_message := s_error_message new,
         s_customer_id := s_customer_id new, s_order_date := s_order_date new \<rparr>"

definition insert_staging ::
  "('f, 'd) runtime \<Rightarrow> ('f, 'd) validated \<Rightarrow> ('f, 'd) db \<Rightarrow> error + ('f, 'd) db" where
  "insert_staging R r d =
     (case bind_int (quantity r) of
        Inl e \<Rightarrow> Inl e
      | Inr q \<Rightarrow>
          (case order_id r of
             None \<Rightarrow> Inl NotNullViolation
           | Some oid \<Rightarrow>
               Inr (d \<lparr> staging_order_items :=
                      upsert_row (staging_conflict (staged R r (sql_affinity R oid) q))
                        (staging_set (staged R r (sql_affinity R oid) q))
                        (staged R r (sql_affinity R oid) q)
                        (staging_order_items d) \<rparr>)))"

text \<open>
  \<^verbatim>\<open>_upsert_order\<close>, as step 3 calls it: with the \<^verbatim>\<open>order_id\<close>, \<^verbatim>\<open>customer_id\<close> and
  \<^verbatim>\<open>order_date\<close> of a staged row, which SQLite has converted already. Only an integer can
  be the rowid of \<^verbatim>\<open>orders\<close>; any other value is refused with \<^verbatim>\<open>datatype mismatch\<close>.
\<close>

definition upsert_order ::
  "'f sqlval \<Rightarrow> 'f sqlval option \<Rightarrow> 'd option \<Rightarrow> ('f, 'd) db \<Rightarrow> error + ('f, 'd) db" where
  "upsert_order oid c dt d =
     (case oid of
        SInt n \<Rightarrow>
          Inr (d \<lparr> orders :=
                 upsert_row (\<lambda>x. o_order_id x = n)
                   (\<lambda>x. x \<lparr> o_customer_id := c, o_order_date := dt \<rparr>)
                   \<lparr> o_order_id = n, o_customer_id = c, o_order_date = dt \<rparr>
                   (orders d) \<rparr>)
      | _ \<Rightarrow> Inl DatatypeMismatch)"

definition blank_item :: string where
  "blank_item = ''__BLANK_ITEM__''"

text \<open>\<^verbatim>\<open>row['item'] or "__BLANK_ITEM__"\<close>: \<^verbatim>\<open>None\<close> and the empty string are false.\<close>

definition item_or_blank :: "string option \<Rightarrow> string" where
  "item_or_blank it = (case it of None \<Rightarrow> blank_item | Some s \<Rightarrow> if s = [] then blank_item else s)"

definition upsert_order_item ::
  "'f sqlval \<Rightarrow> string option \<Rightarrow> int option \<Rightarrow> 'f option \<Rightarrow> bool \<Rightarrow> string option
     \<Rightarrow> ('f, 'd) db \<Rightarrow> error + ('f, 'd) db" where
  "upsert_order_item oid it q p v msg d =
     Inr (d \<lparr> order_items :=
            upsert_row (\<lambda>x. i_order_id x = oid \<and> i_item x = item_or_blank it)
              (\<lambda>x. x \<lparr> i_quantity := q, i_unit_price := p, i_is_valid := v,
                       i_error_message := msg \<rparr>)
              \<lparr> i_order_id = oid, i_item = item_or_blank it, i_quantity = q,
                i_unit_price = p, i_is_valid = v, i_error_message = msg \<rparr>
              (order_items d) \<rparr>)"

text \<open>SQL's three truth values, its \<^verbatim>\<open>AND\<close>, \<^verbatim>\<open>OR\<close> and \<^verbatim>\<open>NOT\<close>, and \<^verbatim>\<open>=\<close> on nullable values.\<close>

datatype tv = TT | FF | UU

fun sql_and :: "tv \<Rightarrow> tv \<Rightarrow> tv" where
  "sql_and FF _ = FF"
| "sql_and _ FF = FF"
| "sql_and TT TT = TT"
| "sql_and _ _ = UU"

fun sql_or :: "tv \<Rightarrow> tv \<Rightarrow> tv" where
  "sql_or TT _ = TT"
| "sql_or _ TT = TT"
| "sql_or FF FF = FF"
| "sql_or _ _ = UU"

fun sql_not :: "tv \<Rightarrow> tv" where
  "sql_not TT = FF"
| "sql_not FF = TT"
| "sql_not UU = UU"

definition sql_eq :: "'a option \<Rightarrow> 'a option \<Rightarrow> tv" where
  "sql_eq a b =
     (case (a, b) of
        (Some x, Some y) \<Rightarrow> if x = y then TT else FF
      | _ \<Rightarrow> UU)"

text \<open>\<^verbatim>\<open>(order_id, item) IN (SELECT order_id, item FROM staging_order_items)\<close>\<close>

definition key_in_staging :: "'f sqlval \<Rightarrow> string \<Rightarrow> ('f, 'd) staging_row list \<Rightarrow> tv" where
  "key_in_staging oid it st =
     foldr sql_or
       (map (\<lambda>s. sql_and (sql_eq (Some oid) (Some (s_order_id s))) (sql_eq (Some it) (s_item s))) st)
       FF"

text \<open>Step 4: \<^verbatim>\<open>DELETE\<close> removes the rows whose \<^verbatim>\<open>WHERE\<close> clause is true.\<close>

definition delete_missing :: "('f, 'd) db \<Rightarrow> error + ('f, 'd) db" where
  "delete_missing d =
     Inr (d \<lparr> order_items :=
            filter (\<lambda>x. sql_not (key_in_staging (i_order_id x) (i_item x) (staging_order_items d)) \<noteq> TT)
              (order_items d) \<rparr>)"

text \<open>
  Step 5: \<^verbatim>\<open>DELETE FROM orders WHERE order_id NOT IN (SELECT DISTINCT order_id FROM
  order_items)\<close>; neither side can be NULL.
\<close>

definition delete_orphans :: "('f, 'd) db \<Rightarrow> error + ('f, 'd) db" where
  "delete_orphans d =
     Inr (d \<lparr> orders :=
            filter (\<lambda>x. SInt (o_order_id x) \<in> set (map i_order_id (order_items d))) (orders d) \<rparr>)"

definition clear_staging :: "('f, 'd) db \<Rightarrow> error + ('f, 'd) db" where
  "clear_staging d = Inr (d \<lparr> staging_order_items := [] \<rparr>)"

subsection \<open>The connection\<close>

text \<open>
  A connection of the sqlite3 module in its default mode. \<open>durable\<close> is the committed
  database, the one any other reader sees and the one that remains when the connection
  is lost; \<open>working\<close> is the database as the cursor sees it, with the changes of the open
  transaction. \<open>ticks\<close> counts the calls made so far; the set \<open>F\<close> given to each call
  holds the numbers of the calls at which the storage layer fails.
\<close>

record ('f, 'd) conn =
  durable :: "('f, 'd) db"
  working :: "('f, 'd) db"
  in_tx :: bool
  ticks :: nat

definition connect :: "('f, 'd) db \<Rightarrow> ('f, 'd) conn" where
  "connect d = \<lparr> durable = d, working = d, in_tx = False, ticks = 0 \<rparr>"

text \<open>
  \<^verbatim>\<open>cursor.execute\<close> of an \<^verbatim>\<open>INSERT\<close> or \<^verbatim>\<open>DELETE\<close>: the module opens a transaction first
  if none is open. A statement that fails changes nothing.
\<close>

definition execute ::
  "nat set \<Rightarrow> (('f, 'd) db \<Rightarrow> error + ('f, 'd) db) \<Rightarrow> ('f, 'd) conn
     \<Rightarrow> (error \<times> ('f, 'd) conn) + ('f, 'd) conn" where
  "execute F stmt c =
     (if ticks c \<in> F then Inl (OperationalError, c \<lparr> ticks := Suc (ticks c) \<rparr>)
      else case stmt (working c) of
        Inl e \<Rightarrow> Inl (e, c \<lparr> in_tx := True, ticks := Suc (ticks c) \<rparr>)
      | Inr w \<Rightarrow> Inr (c \<lparr> working := w, in_tx := True, ticks := Suc (ticks c) \<rparr>))"

text \<open>
  \<^verbatim>\<open>cursor.execute\<close> of a \<^verbatim>\<open>CREATE TABLE\<close> or \<^verbatim>\<open>DROP TABLE\<close>: the module opens no
  transaction for it, so outside a transaction SQLite commits it at once.
\<close>

definition execute_ddl ::
  "nat set \<Rightarrow> (('f, 'd) db \<Rightarrow> error + ('f, 'd) db) \<Rightarrow> ('f, 'd) conn
     \<Rightarrow> (error \<times> ('f, 'd) conn) + ('f, 'd) conn" where
  "execute_ddl F stmt c =
     (if ticks c \<in> F then Inl (OperationalError, c \<lparr> ticks := Suc (ticks c) \<rparr>)
      else case stmt (working c) of
        Inl e \<Rightarrow> Inl (e, c \<lparr> ticks := Suc (ticks c) \<rparr>)
      | Inr w \<Rightarrow>
          Inr (if in_tx c then c \<lparr> working := w, ticks := Suc (ticks c) \<rparr>
               else c \<lparr> durable := w, working := w, ticks := Suc (ticks c) \<rparr>))"

text \<open>\<^verbatim>\<open>cursor.execute\<close> of a \<^verbatim>\<open>SELECT\<close> changes nothing and opens no transaction.\<close>

definition execute_select ::
  "nat set \<Rightarrow> ('f, 'd) conn \<Rightarrow> (error \<times> ('f, 'd) conn) + ('f, 'd) conn" where
  "execute_select F c =
     (if ticks c \<in> F then Inl (OperationalError, c \<lparr> ticks := Suc (ticks c) \<rparr>)
      else Inr (c \<lparr> ticks := Suc (ticks c) \<rparr>))"

definition commit ::
  "nat set \<Rightarrow> ('f, 'd) conn \<Rightarrow> (error \<times> ('f, 'd) conn) + ('f, 'd) conn" where
  "commit F c =
     (if ticks c \<in> F then Inl (OperationalError, c \<lparr> ticks := Suc (ticks c) \<rparr>)
      else Inr (c \<lparr> durable := working c, in_tx := False, ticks := Suc (ticks c) \<rparr>))"

subsection \<open>Incremental sync\<close>

text \<open>Step 2, the loop over \<^verbatim>\<open>validated_data\<close>: one \<^verbatim>\<open>INSERT\<close> for each record.\<close>

fun load_staging ::
  "nat set \<Rightarrow> ('f, 'd) runtime \<Rightarrow> ('f, 'd) validated list \<Rightarrow> ('f, 'd) conn
     \<Rightarrow> (error \<times> ('f, 'd) conn) + ('f, 'd) conn" where
  "load_staging F R [] c = Inr c"
| "load_staging F R (r # rs) c =
     (case execute F (insert_staging R r) c of
        Inl e \<Rightarrow> Inl e
      | Inr c' \<Rightarrow> load_staging F R rs c')"

text \<open>
  Step 3, the loop over the rows that \<^verbatim>\<open>fetchall\<close> returned: \<^verbatim>\<open>_upsert_order\<close>, then
  \<^verbatim>\<open>_upsert_order_item\<close>, for each staged row.
\<close>

fun upsert_staged ::
  "nat set \<Rightarrow> ('f, 'd) staging_row list \<Rightarrow> ('f, 'd) conn
     \<Rightarrow> (error \<times> ('f, 'd) conn) + ('f, 'd) conn" where
  "upsert_staged F [] c = Inr c"
| "upsert_staged F (s # ss) c =
     (case execute F (upsert_order (s_order_id s) (s_customer_id s) (s_order_date s)) c of
        Inl e \<Rightarrow> Inl e
      | Inr c1 \<Rightarrow>
          (case execute F
                  (upsert_order_item (s_order_id s) (s_item s) (s_quantity s) (s_unit_price s)
                     (s_is_valid s) (s_error_message s)) c1 of
             Inl e \<Rightarrow> Inl e
           | Inr c2 \<Rightarrow> upsert_staged F ss c2))"

text \<open>
  \<^verbatim>\<open>_incremental_sync\<close>. Dropping the staging table and creating it again leaves it
  empty (steps 1a, 1b); \<^verbatim>\<open>cursor.connection.commit()\<close> follows the load of step 2.
\<close>

definition incremental_sync ::
  "nat set \<Rightarrow> ('f, 'd) runtime \<Rightarrow> ('f, 'd) validated list \<Rightarrow> ('f, 'd) conn
     \<Rightarrow> (error \<times> ('f, 'd) conn) + ('f, 'd) conn" where
  "incremental_sync F R batch c =
     (case execute_ddl F clear_staging c of Inl e \<Rightarrow> Inl e | Inr c1 \<Rightarrow>
      case execute_ddl F clear_staging c1 of Inl e \<Rightarrow> Inl e | Inr c2 \<Rightarrow>
      case load_staging F R batch c2 of Inl e \<Rightarrow> Inl e | Inr c3 \<Rightarrow>
      case commit F c3 of Inl e \<Rightarrow> Inl e | Inr c4 \<Rightarrow>
      case execute_select F c4 of Inl e \<Rightarrow> Inl e | Inr c5 \<Rightarrow>
      case upsert_staged F (staging_order_items (working c5)) c5 of Inl e \<Rightarrow> Inl e | Inr c6 \<Rightarrow>
      case execute F delete_missing c6 of Inl e \<Rightarrow> Inl e | Inr c7 \<Rightarrow>
      case execute F delete_orphans c7 of Inl e \<Rightarrow> Inl e | Inr c8 \<Rightarrow>
      execute F clear_staging c8)"

text \<open>
  \<^verbatim>\<open>_create_main_tables\<close>: two \<^verbatim>\<open>CREATE TABLE IF NOT EXISTS\<close>, which leave tables that
  exist as they are.
\<close>

definition create_main_tables ::
  "nat set \<Rightarrow> ('f, 'd) conn \<Rightarrow> (error \<times> ('f, 'd) conn) + ('f, 'd) conn" where
  "create_main_tables F c =
     (case execute_ddl F Inr c of Inl e \<Rightarrow> Inl e | Inr c1 \<Rightarrow> execute_ddl F Inr c1)"

text \<open>
  \<^verbatim>\<open>setup_database(db_path, validated_data, overwrite=False)\<close>, the call of \<^verbatim>\<open>main\<close>, on
  the database found at \<^verbatim>\<open>db_path\<close>. On \<open>Inl (e, c)\<close> the exception \<open>e\<close> leaves the
  function, nothing commits or rolls back explicitly, and what remains of the run is
  \<open>durable c\<close>.
\<close>

definition setup_database ::
  "nat set \<Rightarrow> ('f, 'd) runtime \<Rightarrow> ('f, 'd) db \<Rightarrow> ('f, 'd) validated list
     \<Rightarrow> (error \<times> ('f, 'd) conn) + ('f, 'd) conn" where
  "setup_database F R d batch =
     (case create_main_tables F (connect d) of Inl e \<Rightarrow> Inl e | Inr c1 \<Rightarrow>
      case incremental_sync F R batch c1 of Inl e \<Rightarrow> Inl e | Inr c2 \<Rightarrow>
      commit F c2)"

subsection \<open>Aggregations\<close>

text \<open>\<^verbatim>\<open>i.quantity * i.unit_price\<close>, NULL when either is.\<close>

definition sql_line_total :: "('f, 'd) runtime \<Rightarrow> 'f item_row \<Rightarrow> 'f option" where
  "sql_line_total R x =
     (case (i_quantity x, i_unit_price x) of
        (Some q, Some p) \<Rightarrow> Some (sql_mul R q p)
      | _ \<Rightarrow> None)"

text \<open>
  The rows of \<^verbatim>\<open>orders o JOIN order_items i ON o.order_id = i.order_id\<close> for one order.
\<close>

definition children :: "('f, 'd) db \<Rightarrow> int \<Rightarrow> 'f item_row list" where
  "children d n = filter (\<lambda>x. i_order_id x = SInt n) (order_items d)"

text \<open>
  The summands of one order in \<^verbatim>\<open>_get_total_order_values\<close>: its joined rows that pass
  \<^verbatim>\<open>WHERE i.item <> "__BLANK_ITEM__" AND i.quantity IS NOT NULL AND i.unit_price IS NOT NULL\<close>.
\<close>

definition order_terms :: "('f, 'd) runtime \<Rightarrow> ('f, 'd) db \<Rightarrow> int \<Rightarrow> 'f list" where
  "order_terms R d n =
     List.map_filter (sql_line_total R) (filter (\<lambda>x. i_item x \<noteq> blank_item) (children d n))"

text \<open>\<^verbatim>\<open>GROUP BY o.order_id\<close>: one result row for each order that has a summand.\<close>

definition get_total_order_values ::
  "('f, 'd) runtime \<Rightarrow> ('f, 'd) db \<Rightarrow> (int \<times> 'f sqlval option \<times> 'f) list" where
  "get_total_order_values R d =
     concat (map (\<lambda>x. if order_terms R d (o_order_id x) = [] then []
                       else [(o_order_id x, o_customer_id x, sql_sum R (order_terms R d (o_order_id x)))])
                 (orders d))"

text \<open>
  The summands of one customer in \<^verbatim>\<open>_get_top_customer\<close>: the joined rows of all orders of
  that customer that pass \<^verbatim>\<open>WHERE i.quantity IS NOT NULL AND i.unit_price IS NOT NULL\<close>.
  \<^verbatim>\<open>GROUP BY\<close> puts the orders without customer into one group.
\<close>

definition customer_terms ::
  "('f, 'd) runtime \<Rightarrow> ('f, 'd) db \<Rightarrow> 'f sqlval option \<Rightarrow> 'f list" where
  "customer_terms R d c =
     concat (map (\<lambda>x. List.map_filter (sql_line_total R) (children d (o_order_id x)))
                 (filter (\<lambda>x. o_customer_id x = c) (orders d)))"

definition customer_totals ::
  "('f, 'd) runtime \<Rightarrow> ('f, 'd) db \<Rightarrow> ('f sqlval option \<times> 'f) list" where
  "customer_totals R d =
     concat (map (\<lambda>c. if customer_terms R d c = [] then []
                       else [(c, sql_sum R (customer_terms R d c))])
                 (remdups (map o_customer_id (orders d))))"

text \<open>
  \<^verbatim>\<open>ORDER BY total_spend DESC LIMIT 1\<close>. SQLite leaves open which of several groups with
  the greatest total is returned; here it is the first of them.
\<close>

fun first_greatest :: "('f, 'd) runtime \<Rightarrow> ('k \<times> 'f) \<Rightarrow> ('k \<times> 'f) list \<Rightarrow> ('k \<times> 'f)" where
  "first_greatest R best [] = best"
| "first_greatest R best (g # gs) =
     (if sql_less R (snd best) (snd g) then first_greatest R g gs else first_greatest R best gs)"

definition get_top_customer ::
  "('f, 'd) runtime \<Rightarrow> ('f, 'd) db \<Rightarrow> ('f sqlval option \<times> 'f) option" where
  "get_top_customer R d =
     (case customer_totals R d of
        [] \<Rightarrow> None
      | g # gs \<Rightarrow> Some (first_greatest R g gs))"

section \<open>The export (json\_exporter.py)\<close>

record 'f export_item =
  x_item :: string
  x_quantity :: "int option"
  x_unit_price :: "'f option"
  x_is_valid :: bool
  x_error_message :: "string option"

record ('f, 'd) export_order =
  e_order_id :: int
  e_customer_id :: "'f sqlval option"
  e_date :: "'d option"
  e_total_price :: 'f
  e_items :: "'f export_item list"

text \<open>
  The generator under \<^verbatim>\<open>sum(...)\<close>: \<^verbatim>\<open>qty * price\<close> for the items with
  \<^verbatim>\<open>item != "__BLANK_ITEM__" and qty is not None and price is not None\<close>.
\<close>

fun price_terms :: "('f, 'd) runtime \<Rightarrow> 'f item_row list \<Rightarrow> 'f list" where
  "price_terms R [] = []"
| "price_terms R (x # xs) =
     (case (i_quantity x, i_unit_price x) of
        (Some q, Some p) \<Rightarrow>
          if i_item x \<noteq> blank_item then py_mul R q p # price_terms R xs else price_terms R xs
      | _ \<Rightarrow> price_terms R xs)"

definition export_item_of :: "'f item_row \<Rightarrow> 'f export_item" where
  "export_item_of x =
     \<lparr> x_item = i_item x, x_quantity = i_quantity x, x_unit_price = i_unit_price x,
       x_is_valid = i_is_valid x, x_error_message = i_error_message x \<rparr>"

text \<open>
  The loop of \<^verbatim>\<open>export_json\<close> over the rows of \<^verbatim>\<open>orders\<close>, with its \<^verbatim>\<open>continue\<close> for an
  order without items; the result is the list \<^verbatim>\<open>result\<close> that \<^verbatim>\<open>json.dumps\<close> prints.
\<close>

fun export_loop ::
  "('f, 'd) runtime \<Rightarrow> ('f, 'd) db \<Rightarrow> ('f, 'd) order_row list \<Rightarrow> ('f, 'd) export_order list" where
  "export_loop R d [] = []"
| "export_loop R d (x # xs) =
     (if children d (o_order_id x) = [] then export_loop R d xs
      else \<lparr> e_order_id = o_order_id x, e_customer_id = o_customer_id x,
             e_date = o_order_date x,
             e_total_price = py_round2 R (py_sum R (price_terms R (children d (o_order_id x)))),
             e_items = map export_item_of (children d (o_order_id x)) \<rparr>
           # export_loop R d xs)"

definition export_json :: "('f, 'd) runtime \<Rightarrow> ('f, 'd) db \<Rightarrow> ('f, 'd) export_order list" where
  "export_json R d = export_loop R d (orders d)"

section \<open>A small runtime for concrete runs\<close>

text \<open>
  The closed examples below run the model on a runtime that covers the inputs they use:
  unsigned decimal numbers as \<^verbatim>\<open>int\<close> and SQLite read them (whole numbers stand for the
  floats), exact arithmetic, and the dates of the four formats.
\<close>

definition digit_of :: "char \<Rightarrow> int option" where
  "digit_of c =
     (if 48 \<le> (of_char c :: nat) \<and> (of_char c :: nat) \<le> 57 then Some (int (of_char c) - 48)
      else None)"

fun digits :: "int \<Rightarrow> string \<Rightarrow> int option" where
  "digits acc [] = Some acc"
| "digits acc (c # cs) =
     (case digit_of c of None \<Rightarrow> None | Some k \<Rightarrow> digits (10 * acc + k) cs)"

definition test_int :: "string \<Rightarrow> int option" where
  "test_int s = (if s = [] then None else digits 0 s)"

text \<open>
  \<^verbatim>\<open>datetime.strptime(s, fmt).date()\<close> for the four formats of \<^verbatim>\<open>_parse_date\<close>, in the C
  locale, as the regular expressions of the library read them: \<^verbatim>\<open>%Y\<close> is four digits
  (and the year at least 1), \<^verbatim>\<open>%m\<close> and \<^verbatim>\<open>%d\<close> are one or two digits in range, \<^verbatim>\<open>%d\<close> may
  also be a space and a digit, \<^verbatim>\<open>%B\<close> is a full month name in any case, a space of the
  format stands for whitespace of any length, the whole string must be consumed, and the
  day must exist in its month.
\<close>

fun split_by :: "(char \<Rightarrow> bool) \<Rightarrow> string \<Rightarrow> string list" where
  "split_by sep [] = [[]]"
| "split_by sep (c # cs) =
     (if sep c then [] # split_by sep cs
      else (case split_by sep cs of [] \<Rightarrow> [[c]] | t # ts \<Rightarrow> (c # t) # ts))"

definition field_val :: "string \<Rightarrow> int option" where
  "field_val t = (if length t = 1 \<or> length t = 2 then digits 0 t else None)"

definition year_val :: "string \<Rightarrow> int option" where
  "year_val t =
     (if length t = 4 then (case digits 0 t of Some y \<Rightarrow> if 1 \<le> y then Some y else None | None \<Rightarrow> None)
      else None)"

definition month_val :: "string \<Rightarrow> int option" where
  "month_val t =
     (case field_val t of Some m \<Rightarrow> if 1 \<le> m \<and> m \<le> 12 then Some m else None | None \<Rightarrow> None)"

definition day_val :: "string \<Rightarrow> int option" where
  "day_val t =
     (case t of
        [a, b] \<Rightarrow>
          if a = CHR '' '' then (case digit_of b of Some d \<Rightarrow> if 1 \<le> d then Some d else None | None \<Rightarrow> None)
          else (case digits 0 t of Some d \<Rightarrow> if 1 \<le> d \<and> d \<le> 31 then Some d else None | None \<Rightarrow> None)
      | _ \<Rightarrow> (case field_val t of Some d \<Rightarrow> if 1 \<le> d \<and> d \<le> 31 then Some d else None | None \<Rightarrow> None))"

definition to_lower :: "char \<Rightarrow> char" where
  "to_lower c =
     (if 65 \<le> (of_char c :: nat) \<and> (of_char c :: nat) \<le> 90 then char_of (of_char c + 32 :: nat)
      else c)"

definition month_names :: "string list" where
  "month_names =
     [''january'', ''february'', ''march'', ''april'', ''may'', ''june'', ''july'', ''august'',
      ''september'', ''october'', ''november'', ''december'']"

fun index_of :: "string \<Rightarrow> string list \<Rightarrow> int \<Rightarrow> int option" where
  "index_of t [] k = None"
| "index_of t (n # ns) k = (if t = n then Some k else index_of t ns (k + 1))"

definition month_name_val :: "string \<Rightarrow> int option" where
  "month_name_val t = index_of (map to_lower t) month_names 1"

definition days_in_month :: "int \<Rightarrow> int \<Rightarrow> int" where
  "days_in_month y m =
     (if m = 2 then (if y mod 4 = 0 \<and> (y mod 100 \<noteq> 0 \<or> y mod 400 = 0) then 29 else 28)
      else if m = 4 \<or> m = 6 \<or> m = 9 \<or> m = 11 then 30
      else 31)"

definition date3 :: "int option \<Rightarrow> int option \<Rightarrow> int option \<Rightarrow> (int \<times> int \<times> int) option" where
  "date3 y m d =
     (case (y, m, d) of
        (Some a, Some b, Some c) \<Rightarrow> if c \<le> days_in_month a b then Some (a, b, c) else None
      | _ \<Rightarrow> None)"

definition test_strptime :: "string \<Rightarrow> string \<Rightarrow> (int \<times> int \<times> int) option" where
  "test_strptime s fmt =
     (if fmt = ''%Y-%m-%d'' then
        (case split_by (\<lambda>c. c = CHR ''-'') s of
           [y, m, d] \<Rightarrow> date3 (year_val y) (month_val m) (day_val d)
         | _ \<Rightarrow> None)
      else if fmt = ''%d/%m/%Y'' then
        (case split_by (\<lambda>c. c = CHR ''/'') s of
           [d, m, y] \<Rightarrow> date3 (year_val y) (month_val m) (day_val d)
         | _ \<Rightarrow> None)
      else if fmt = ''%Y/%m/%d'' then
        (case split_by (\<lambda>c. c = CHR ''/'') s of
           [y, m, d] \<Rightarrow> date3 (year_val y) (month_val m) (day_val d)
         | _ \<Rightarrow> None)
      else if fmt = ''%B %d %Y'' then
        (if s = [] \<or> is_space (hd s) \<or> is_space (last s) then None
         else (case filter (\<lambda>t. t \<noteq> []) (split_by is_space s) of
                 [b, d, y] \<Rightarrow> date3 (year_val y) (month_name_val b) (day_val d)
               | _ \<Rightarrow> None))
      else None)"

definition test_affinity :: "string \<Rightarrow> int sqlval" where
  "test_affinity s = (case test_int s of Some n \<Rightarrow> SInt n | None \<Rightarrow> SText s)"

definition test_runtime :: "(int, int \<times> int \<times> int) runtime" where
  "test_runtime =
     \<lparr> py_int = test_int, py_float = test_int, py_strptime = test_strptime,
       py_float_truth = (\<lambda>x. x \<noteq> 0), py_mul = (\<lambda>q p. q * p), py_sum = sum_list,
       py_round2 = (\<lambda>x. x), sql_affinity = test_affinity, sql_real = Some,
       sql_mul = (\<lambda>q p. q * p), sql_sum = sum_list, sql_less = (\<lambda>a b. a < b) \<rparr>"

text \<open>A CSV row with the six columns, each cell a string.\<close>

definition csv_row ::
  "string \<Rightarrow> string \<Rightarrow> string \<Rightarrow> string \<Rightarrow> string \<Rightarrow> string
     \<Rightarrow> (int, int \<times> int \<times> int) raw_row" where
  "csv_row c oid it q p d =
     [''customer_id'' \<mapsto> PStr c, ''order_id'' \<mapsto> PStr oid, ''item'' \<mapsto> PStr it,
      ''quantity'' \<mapsto> PStr q, ''unit_price'' \<mapsto> PStr p, ''date'' \<mapsto> PStr d]"


text \<open>A store with three orders, one of them without items, for the examples.\<close>

definition sample_db :: "(int, int \<times> int \<times> int) db" where
  "sample_db =
     \<lparr> orders =
         [\<lparr> o_order_id = 1, o_customer_id = Some (SText ''C1''), o_order_date = Some (2025, 6, 1) \<rparr>,
          \<lparr> o_order_id = 2, o_customer_id = Some (SText ''C2''), o_order_date = None \<rparr>,
          \<lparr> o_order_id = 3, o_customer_id = Some (SText ''C1''), o_order_date = None \<rparr>],
       order_items =
         [\<lparr> i_order_id = SInt 1, i_item = ''Widget'', i_quantity = Some 2, i_unit_price = Some 5,
            i_is_valid = True, i_error_message = None \<rparr>,
          \<lparr> i_order_id = SInt 1, i_item = ''__BLANK_ITEM__'', i_quantity = Some 1, i_unit_price = Some 7,
            i_is_valid = False, i_error_message = Some ''Invalid or missing item'' \<rparr>,
          \<lparr> i_order_id = SInt 1, i_item = ''Bolt'', i_quantity = Some 3, i_unit_price = Some 4,
            i_is_valid = False, i_error_message = Some ''Invalid or missing date'' \<rparr>,
          \<lparr> i_order_id = SInt 3, i_item = ''Nut'', i_quantity = None, i_unit_price = Some 4,
            i_is_valid = False, i_error_message = Some ''Invalid or missing quantity'' \<rparr>],
       staging_order_items = [] \<rparr>"

definition bolt_item :: "int item_row" where
  "bolt_item = order_items sample_db ! 2"

definition first_order :: "(int, int \<times> int \<times> int) order_row" where
  "first_order = orders sample_db ! 0"

text \<open>A store that holds order 5 with the single item Bolt, and records for the examples.\<close>

definition bolt_db :: "(int, int \<times> int \<times> int) db" where
  "bolt_db =
     \<lparr> orders =
         [\<lparr> o_order_id = 5, o_customer_id = Some (SText ''C1''), o_order_date = Some (2025, 6, 1) \<rparr>],
       order_items =
         [\<lparr> i_order_id = SInt 5, i_item = ''Bolt'', i_quantity = Some 2, i_unit_price = Some 3,
            i_is_valid = True, i_error_message = None \<rparr>],
       staging_order_items = [] \<rparr>"

definition nut_record :: "string \<Rightarrow> (int, int \<times> int \<times> int) validated" where
  "nut_record oid =
     \<lparr> customer_id = Some ''C1'', order_id = Some oid, item = Some ''Nut'', quantity = Some 1,
       unit_price = Some 9, date = Some (2025, 6, 1), is_valid = True, error_message = None \<rparr>"

text \<open>The store that a sync of the single record of order 6 leaves.\<close>

definition nut_db :: "(int, int \<times> int \<times> int) db" where
  "nut_db =
     \<lparr> orders =
         [\<lparr> o_order_id = 6, o_customer_id = Some (SText ''C1''), o_order_date = Some (2025, 6, 1) \<rparr>],
       order_items =
         [\<lparr> i_order_id = SInt 6, i_item = ''Nut'', i_quantity = Some 1, i_unit_price = Some 9,
            i_is_valid = True, i_error_message = None \<rparr>],
       staging_order_items = [] \<rparr>"


definition blank_record :: "(int, int \<times> int \<times> int) validated" where
  "blank_record =
     \<lparr> customer_id = Some ''C1'', order_id = Some ''5'', item = None, quantity = Some 1,
       unit_price = Some 9, date = Some (2025, 6, 1), is_valid = False,
       error_message = Some ''Invalid or missing item'' \<rparr>"


section \<open>Views used in the statements\<close>

text \<open>The store with the \<^verbatim>\<open>is_valid\<close> flags of all items replaced by the values of \<open>g\<close>.\<close>

definition reflag :: "('f item_row \<Rightarrow> bool) \<Rightarrow> ('f, 'd) db \<Rightarrow> ('f, 'd) db" where
  "reflag g d = d \<lparr> order_items := map (\<lambda>x. x \<lparr> i_is_valid := g x \<rparr>) (order_items d) \<rparr>"

text \<open>
  The statements of one sync applied to the database alone, as a run without storage
  failures applies them: the loops of steps 2 and 3 and the whole of
  \<^verbatim>\<open>_incremental_sync\<close>.
\<close>

fun stage_all :: "('f, 'd) runtime \<Rightarrow> ('f, 'd) validated list \<Rightarrow> ('f, 'd) db \<Rightarrow> error + ('f, 'd) db" where
  "stage_all R [] d = Inr d"
| "stage_all R (r # rs) d =
     (case insert_staging R r d of Inl e \<Rightarrow> Inl e | Inr d' \<Rightarrow> stage_all R rs d')"

fun upsert_all :: "('f, 'd) staging_row list \<Rightarrow> ('f, 'd) db \<Rightarrow> error + ('f, 'd) db" where
  "upsert_all [] d = Inr d"
| "upsert_all (s # ss) d =
     (case upsert_order (s_order_id s) (s_customer_id s) (s_order_date s) d of
        Inl e \<Rightarrow> Inl e
      | Inr d1 \<Rightarrow>
          (case upsert_order_item (s_order_id s) (s_item s) (s_quantity s) (s_unit_price s)
                  (s_is_valid s) (s_error_message s) d1 of
             Inl e \<Rightarrow> Inl e
           | Inr d2 \<Rightarrow> upsert_all ss d2))"

definition sync_db :: "('f, 'd) runtime \<Rightarrow> ('f, 'd) validated list \<Rightarrow> ('f, 'd) db \<Rightarrow> error + ('f, 'd) db" where
  "sync_db R batch d =
     (case stage_all R batch (d \<lparr> staging_order_items := [] \<rparr>) of Inl e \<Rightarrow> Inl e | Inr d1 \<Rightarrow>
      case upsert_all (staging_order_items d1) d1 of Inl e \<Rightarrow> Inl e | Inr d2 \<Rightarrow>
      case delete_missing d2 of Inl e \<Rightarrow> Inl e | Inr d3 \<Rightarrow>
      case delete_orphans d3 of Inl e \<Rightarrow> Inl e | Inr d4 \<Rightarrow>
      clear_staging d4)"

text \<open>The two production tables of a database.\<close>

definition production :: "('f, 'd) db \<Rightarrow> ('f, 'd) order_row list \<times> 'f item_row list" where
  "production d = (orders d, order_items d)"

text \<open>
  What a run leaves behind: the exception that ended it, if any, and the committed
  database.
\<close>

definition outcome ::
  "(error \<times> ('f, 'd) conn) + ('f, 'd) conn \<Rightarrow> error option \<times> ('f, 'd) db" where
  "outcome res = (case res of Inl (e, c) \<Rightarrow> (Some e, durable c) | Inr c \<Rightarrow> (None, durable c))"

text \<open>
  The upsert of a table whose rows are stored whole under a key \<open>K\<close>: the row with the key of
  the new one is replaced in place, or the new row is appended.
\<close>

definition put :: "('r \<Rightarrow> 'k) \<Rightarrow> 'r \<Rightarrow> 'r list \<Rightarrow> 'r list" where
  "put K n W = upsert_row (\<lambda>x. K x = K n) (\<lambda>x. n) n W"

text \<open>
  The key \<^verbatim>\<open>UNIQUE(order_id, item)\<close> of an item.
\<close>

definition item_key :: "'f item_row \<Rightarrow> 'f sqlval \<times> string" where
  "item_key x = (i_order_id x, i_item x)"

text \<open>
  The item that \<^verbatim>\<open>_upsert_order_item\<close> writes for a staged row.
\<close>

definition item_of :: "('f, 'd) staging_row \<Rightarrow> 'f item_row" where
  "item_of s =
     \<lparr> i_order_id = s_order_id s, i_item = item_or_blank (s_item s), i_quantity = s_quantity s,
       i_unit_price = s_unit_price s, i_is_valid = s_is_valid s,
       i_error_message = s_error_message s \<rparr>"

text \<open>
  The values that \<^verbatim>\<open>orders.order_id\<close> accepts.
\<close>

definition is_rowid :: "'f sqlval \<Rightarrow> bool" where
  "is_rowid v = (case v of SInt n \<Rightarrow> True | _ \<Rightarrow> False)"

text \<open>
  The order that \<^verbatim>\<open>_upsert_order\<close> writes for a staged row whose \<^verbatim>\<open>order_id\<close> is an integer.
\<close>

definition order_of :: "('f, 'd) staging_row \<Rightarrow> ('f, 'd) order_row" where
  "order_of s =
     \<lparr> o_order_id = (case s_order_id s of SInt n \<Rightarrow> n | _ \<Rightarrow> 0),
       o_customer_id = s_customer_id s, o_order_date = s_order_date s \<rparr>"

text \<open>
  The row that one \<^verbatim>\<open>INSERT\<close> of step 2 offers to the staging table, or the exception of
  that statement.
\<close>

definition bound_row :: "('f, 'd) runtime \<Rightarrow> ('f, 'd) validated \<Rightarrow> error + ('f, 'd) staging_row" where
  "bound_row R r =
     (case bind_int (quantity r) of
        Inl e \<Rightarrow> Inl e
      | Inr q \<Rightarrow>
          (case order_id r of
             None \<Rightarrow> Inl NotNullViolation
           | Some oid \<Rightarrow> Inr (staged R r (sql_affinity R oid) q)))"

text \<open>
  The rows of a whole batch, up to the first exception.
\<close>

fun bound_rows :: "('f, 'd) runtime \<Rightarrow> ('f, 'd) validated list \<Rightarrow> error + ('f, 'd) staging_row list" where
  "bound_rows R [] = Inr []"
| "bound_rows R (r # rs) =
     (case bound_row R r of
        Inl e \<Rightarrow> Inl e
      | Inr n \<Rightarrow> (case bound_rows R rs of Inl e \<Rightarrow> Inl e | Inr ns \<Rightarrow> Inr (n # ns)))"

text \<open>
  The upsert of the staging table.
\<close>

definition put_staging :: "('f, 'd) staging_row \<Rightarrow> ('f, 'd) staging_row list \<Rightarrow> ('f, 'd) staging_row list" where
  "put_staging n S = upsert_row (staging_conflict n) (staging_set n) n S"

text \<open>
  The items that step 4 leaves in place.
\<close>

definition kept :: "('f, 'd) staging_row list \<Rightarrow> 'f item_row \<Rightarrow> bool" where
  "kept S x = (sql_not (key_in_staging (i_order_id x) (i_item x) S) \<noteq> TT)"

text \<open>
  The table \<^verbatim>\<open>order_items\<close> after steps 3 and 4, for the staged rows \<open>S\<close>.
\<close>

definition synced_items :: "('f, 'd) staging_row list \<Rightarrow> 'f item_row list \<Rightarrow> 'f item_row list" where
  "synced_items S items = filter (kept S) (fold (put item_key) (map item_of S) items)"

text \<open>
  The table \<^verbatim>\<open>orders\<close> after steps 3 and 5, given the items that step 4 left.
\<close>

definition synced_orders ::
  "('f, 'd) staging_row list \<Rightarrow> 'f item_row list \<Rightarrow> ('f, 'd) order_row list \<Rightarrow> ('f, 'd) order_row list" where
  "synced_orders S items os =
     filter (\<lambda>y. SInt (o_order_id y) \<in> set (map i_order_id items))
       (fold (put o_order_id) (map order_of S) os)"

text \<open>The key \<^verbatim>\<open>PRIMARY KEY(order_id, item)\<close> of a staged row.\<close>

definition skey :: "('f, 'd) staging_row \<Rightarrow> 'f sqlval \<times> string option" where
  "skey s = (s_order_id s, s_item s)"

text \<open>
  The key under which \<^verbatim>\<open>order_items\<close> holds a record of the batch: its \<^verbatim>\<open>order_id\<close> as
  SQLite stores it, and its \<^verbatim>\<open>item\<close> or the placeholder. A record without \<^verbatim>\<open>order_id\<close>
  has none.
\<close>

definition record_key :: "('f, 'd) runtime \<Rightarrow> ('f, 'd) validated \<Rightarrow> ('f sqlval \<times> string) option" where
  "record_key R r =
     (case order_id r of
        None \<Rightarrow> None
      | Some t \<Rightarrow> Some (sql_affinity R t, item_or_blank (item r)))"

text \<open>
  The records that steps 2 and 3 accept: the \<^verbatim>\<open>order_id\<close> is present and SQLite stores
  it as an integer, and the \<^verbatim>\<open>quantity\<close>, if any, is a signed 64-bit integer.
\<close>

definition storable :: "('f, 'd) runtime \<Rightarrow> ('f, 'd) validated \<Rightarrow> bool" where
  "storable R r =
     ((case order_id r of None \<Rightarrow> False | Some t \<Rightarrow> is_rowid (sql_affinity R t)) \<and>
      (case quantity r of None \<Rightarrow> True | Some q \<Rightarrow> - (2 ^ 63) \<le> q \<and> q < 2 ^ 63))"


section \<open>Properties of the validator\<close>


lemma strip_head: "dropWhile is_space (strip s) = strip s"
proof (cases "strip s")
  case Nil then show ?thesis by simp
next
  case (Cons a as)
  let ?t = "dropWhile is_space s"
  have pre: "?t = strip s @ rev (takeWhile is_space (rev ?t))"
    unfolding strip_def
    by (metis rev_append rev_rev_ident takeWhile_dropWhile_id)
  have "?t \<noteq> []" using pre Cons by (metis append_Cons list.distinct(1))
  then have "\<not> is_space (hd ?t)" by (rule hd_dropWhile)
  moreover have "hd ?t = a" using pre Cons by (metis hd_append2 list.sel(1) list.distinct(1))
  ultimately show ?thesis using Cons by simp
qed

lemma strip_idem: "strip (strip s) = strip s"
proof -
  have "strip (strip s) = rev (dropWhile is_space (rev (strip s)))"
    unfolding strip_def[of "strip s"] strip_head ..
  also have "\<dots> = strip s" unfolding strip_def by (simp add: dropWhile_idem)
  finally show ?thesis .
qed

lemma parse_string_field_again:
  "parse_string_field v = Inr (Some t) \<Longrightarrow> parse_string_field (PStr t) = Inr (Some t)"
  by (cases v) (auto simp: strip_idem split: if_splits)

lemma validate_row_cases:
  assumes "validate_row R row = Inr v"
  shows "parse_string_field (row_get row ''customer_id'') = Inr (customer_id v)"
    and "parse_string_field (row_get row ''order_id'') = Inr (order_id v)"
    and "parse_string_field (row_get row ''item'') = Inr (item v)"
    and "parse_int_field R (row_get row ''quantity'') = Inr (quantity v)"
    and "parse_float_field R (row_get row ''unit_price'') = Inr (unit_price v)"
    and "parse_date R (row_get row ''date'') = Inr (date v)"
    and "is_valid v = (row_errors (customer_id v) (order_id v) (item v) (quantity v) (unit_price v) (date v) = [])"
    and "error_message v = (if is_valid v then None else Some (py_join ''; '' (row_errors (customer_id v) (order_id v) (item v) (quantity v) (unit_price v) (date v))))"
  using assms unfolding validate_row_def
  by (auto split: sum.splits)

lemma row_errors_Nil: "(row_errors c oid it q p d = []) = (c \<noteq> None \<and> oid \<noteq> None \<and> it \<noteq> None \<and> q \<noteq> None \<and> p \<noteq> None \<and> d \<noteq> None)"
  by (auto simp: row_errors_def missing_def)

lemma validate_row_valid: "validate_row R row = Inr v \<Longrightarrow> is_valid v = all_present v"
  by (simp add: validate_row_cases(7) row_errors_Nil all_present_def)

lemma validate_row_message: "validate_row R row = Inr v \<Longrightarrow> (error_message v = None) = is_valid v"
  by (simp add: validate_row_cases(8))

lemma all_less_Suc: "(\<forall>j<Suc n. P j) = (P 0 \<and> (\<forall>j<n. P (Suc j)))"
  by (metis All_less_Suc2)

lemma rows_loop_valid:
  "rows_loop R seen rows = Inr vs \<Longrightarrow> i < length vs \<Longrightarrow>
     is_valid (vs ! i) =
       (all_present (vs ! i) \<and> (order_id (vs ! i), item (vs ! i)) \<notin> seen \<and>
        (\<forall>j<i. is_valid (vs ! j) \<longrightarrow>
            (order_id (vs ! j), item (vs ! j)) \<noteq> (order_id (vs ! i), item (vs ! i))))"
proof (induction rows arbitrary: seen vs i)
  case Nil
  then show ?case by simp
next
  case (Cons row rows)
  from Cons.prems(1) obtain result where res: "validate_row R row = Inr result"
    by (auto split: sum.splits)
  have pres: "is_valid result = all_present result" using res by (rule validate_row_valid)
  show ?case
  proof (cases "is_valid result")
    case False
    with Cons.prems(1) res obtain rest where
      rest: "rows_loop R seen rows = Inr rest" and vs: "vs = result # rest"
      by (auto split: sum.splits)
    show ?thesis
    proof (cases i)
      case 0
      then show ?thesis using vs False pres by simp
    next
      case (Suc k)
      then have "k < length rest" using Cons.prems(2) vs by simp
      from Cons.IH[OF rest this] show ?thesis using Suc vs False
        by (simp add: all_less_Suc)
    qed
  next
    case True
    show ?thesis
    proof (cases "(order_id result, item result) \<in> seen")
      case dup: True
      with Cons.prems(1) res True obtain rest where
        rest: "rows_loop R seen rows = Inr rest" and
        vs: "vs = result \<lparr> is_valid := False, error_message := Some ''Duplicate order_id and item'' \<rparr> # rest"
        by (auto split: sum.splits)
      show ?thesis
      proof (cases i)
        case 0
        then show ?thesis using vs dup by simp
      next
        case (Suc k)
        then have "k < length rest" using Cons.prems(2) vs by simp
        from Cons.IH[OF rest this] show ?thesis using Suc vs
          by (simp add: all_less_Suc)
      qed
    next
      case fresh: False
      with Cons.prems(1) res True obtain rest where
        rest: "rows_loop R (insert (order_id result, item result) seen) rows = Inr rest" and
        vs: "vs = result # rest"
        by (auto split: sum.splits)
      show ?thesis
      proof (cases i)
        case 0
        then show ?thesis using vs fresh True pres by simp
      next
        case (Suc k)
        then have "k < length rest" using Cons.prems(2) vs by simp
        from Cons.IH[OF rest this] show ?thesis using Suc vs True
          by (auto simp add: all_less_Suc)
      qed
    qed
  qed
qed

lemma rows_loop_message:
  "rows_loop R seen rows = Inr vs \<Longrightarrow> v \<in> set vs \<Longrightarrow> (error_message v = None) = is_valid v"
proof (induction rows arbitrary: seen vs)
  case Nil
  then show ?case by simp
next
  case (Cons row rows)
  from Cons.prems(1) obtain result where res: "validate_row R row = Inr result"
    by (auto split: sum.splits)
  have msg: "(error_message result = None) = is_valid result"
    using res by (rule validate_row_message)
  from Cons.prems res msg Cons.IH show ?case
    by (auto split: sum.splits if_splits)
qed

text \<open>
  Claim C4, as the code has it. Of the records that \<^verbatim>\<open>valid_order_rows_flexible\<close> yields
  for a batch, one is valid exactly when its six required fields are present and no
  earlier valid record of the batch has its \<^verbatim>\<open>(order_id, item)\<close>; its \<^verbatim>\<open>error_message\<close> is
  \<^verbatim>\<open>None\<close> exactly when it is valid.
\<close>

theorem yielded_record_invariant:
  "valid_order_rows_flexible R rows = Inr vs \<Longrightarrow> i < length vs \<Longrightarrow>
     is_valid (vs ! i) =
       (all_present (vs ! i) \<and>
        (\<forall>j<i. is_valid (vs ! j) \<longrightarrow>
            (order_id (vs ! j), item (vs ! j)) \<noteq> (order_id (vs ! i), item (vs ! i)))) \<and>
     (error_message (vs ! i) = None) = is_valid (vs ! i)"
proof -
  assume run: "valid_order_rows_flexible R rows = Inr vs" and i: "i < length vs"
  from run have loop: "rows_loop R {} rows = Inr vs"
    by (simp add: valid_order_rows_flexible_def)
  have "vs ! i \<in> set vs" using i by simp
  with rows_loop_message[OF loop] have "(error_message (vs ! i) = None) = is_valid (vs ! i)"
    by blast
  with rows_loop_valid[OF loop i] show ?thesis by simp
qed

theorem yielded_record_invariant_witness:
  "valid_order_rows_flexible test_runtime
      [csv_row ''C1'' ''5'' ''Bolt'' ''2'' ''3'' ''2025-06-01'',
       csv_row ''C1'' ''5'' ''Bolt'' ''7'' ''4'' ''2025-06-01''] =
     Inr [\<lparr> customer_id = Some ''C1'', order_id = Some ''5'', item = Some ''Bolt'',
             quantity = Some 2, unit_price = Some 3, date = Some (2025, 6, 1),
             is_valid = True, error_message = None \<rparr>,
          \<lparr> customer_id = Some ''C1'', order_id = Some ''5'', item = Some ''Bolt'',
             quantity = Some 7, unit_price = Some 4, date = Some (2025, 6, 1),
             is_valid = False, error_message = Some ''Duplicate order_id and item'' \<rparr>] \<and>
   (1::nat) < 2"
proof -
  have run: "valid_order_rows_flexible test_runtime
      [csv_row ''C1'' ''5'' ''Bolt'' ''2'' ''3'' ''2025-06-01'',
       csv_row ''C1'' ''5'' ''Bolt'' ''7'' ''4'' ''2025-06-01''] =
     Inr [\<lparr> customer_id = Some ''C1'', order_id = Some ''5'', item = Some ''Bolt'',
             quantity = Some 2, unit_price = Some 3, date = Some (2025, 6, 1),
             is_valid = True, error_message = None \<rparr>,
          \<lparr> customer_id = Some ''C1'', order_id = Some ''5'', item = Some ''Bolt'',
             quantity = Some 7, unit_price = Some 4, date = Some (2025, 6, 1),
             is_valid = False, error_message = Some ''Duplicate order_id and item'' \<rparr>]"
    by code_simp
  from yielded_record_invariant[OF run, of 1] run show ?thesis by simp
qed

text \<open>
  The claim as worded fails on the second of two equal rows: all six fields are
  present and the record is not valid.
\<close>

theorem yielded_record_counterexample:
  "valid_order_rows_flexible test_runtime
      [csv_row ''C1'' ''5'' ''Bolt'' ''2'' ''3'' ''2025-06-01'',
       csv_row ''C1'' ''5'' ''Bolt'' ''2'' ''3'' ''2025-06-01''] =
     Inr [\<lparr> customer_id = Some ''C1'', order_id = Some ''5'', item = Some ''Bolt'',
             quantity = Some 2, unit_price = Some 3, date = Some (2025, 6, 1),
             is_valid = True, error_message = None \<rparr>,
          \<lparr> customer_id = Some ''C1'', order_id = Some ''5'', item = Some ''Bolt'',
             quantity = Some 2, unit_price = Some 3, date = Some (2025, 6, 1),
             is_valid = False, error_message = Some ''Duplicate order_id and item'' \<rparr>] \<and>
   all_present \<lparr> customer_id = Some ''C1'', order_id = Some ''5'', item = Some ''Bolt'',
             quantity = Some 2, unit_price = Some (3::int), date = Some (2025::int, 6::int, 1::int),
             is_valid = False, error_message = Some ''Duplicate order_id and item'' \<rparr>"
  by code_simp


lemma try_formats_first:
  "i < length fmts \<Longrightarrow> py_strptime R (strip s) (fmts ! i) = Some d \<Longrightarrow>
   (\<forall>j<i. py_strptime R (strip s) (fmts ! j) = None) \<Longrightarrow> try_formats R s fmts = Some d"
proof (induction fmts arbitrary: i)
  case Nil
  then show ?case by simp
next
  case (Cons f fs)
  show ?case
  proof (cases i)
    case 0
    then show ?thesis using Cons.prems by simp
  next
    case (Suc k)
    have "py_strptime R (strip s) f = None" using Cons.prems(3) Suc by auto
    moreover have "\<forall>j<k. py_strptime R (strip s) (fs ! j) = None"
    proof (intro allI impI)
      fix j assume "j < k"
      then have "Suc j < i" using Suc by simp
      with Cons.prems(3) have "py_strptime R (strip s) ((f # fs) ! Suc j) = None" by blast
      then show "py_strptime R (strip s) (fs ! j) = None" by simp
    qed
    then have "try_formats R s fs = Some d"
      using Cons.IH[of k] Cons.prems(1,2) Suc by simp
    ultimately show ?thesis by simp
  qed
qed

lemma try_formats_none:
  "(\<forall>fmt\<in>set fmts. py_strptime R (strip s) fmt = None) \<Longrightarrow> try_formats R s fmts = None"
  by (induction fmts) auto

lemma parse_date_none:
  "(\<forall>fmt\<in>set date_formats. py_strptime R (strip s) fmt = None) \<Longrightarrow> parse_date R (PStr s) = Inr None"
  by (simp add: parse_date_def try_formats_none)

text \<open>
  Claim C7. \<^verbatim>\<open>_parse_date\<close> tries \<^verbatim>\<open>%Y-%m-%d\<close>, \<^verbatim>\<open>%d/%m/%Y\<close>, \<^verbatim>\<open>%Y/%m/%d\<close> and
  \<^verbatim>\<open>%B %d %Y\<close> in this order on a non-empty string, and the first format that parses
  gives the date. When none parses, the date is \<^verbatim>\<open>None\<close>, and the record that
  \<^verbatim>\<open>_validate_row\<close> builds has no date, is invalid and has the date error in its list of
  errors, which its message joins.
\<close>

theorem parse_date_first_format_wins:
  "date_formats = [''%Y-%m-%d'', ''%d/%m/%Y'', ''%Y/%m/%d'', ''%B %d %Y''] \<and>
   (\<forall>i d. s \<noteq> [] \<and> i < length date_formats \<and>
        py_strptime R (strip s) (date_formats ! i) = Some d \<and>
        (\<forall>j<i. py_strptime R (strip s) (date_formats ! j) = None)
      \<longrightarrow> parse_date R (PStr s) = Inr (Some d)) \<and>
   ((\<forall>fmt\<in>set date_formats. py_strptime R (strip s) fmt = None) \<longrightarrow>
      parse_date R (PStr s) = Inr None \<and>
      (\<forall>row v. row_get row ''date'' = PStr s \<and> validate_row R row = Inr v \<longrightarrow>
         date v = None \<and> \<not> is_valid v \<and>
         ''Invalid or missing date'' \<in>
           set (row_errors (customer_id v) (order_id v) (item v) (quantity v) (unit_price v) (date v)) \<and>
         error_message v =
           Some (py_join ''; ''
             (row_errors (customer_id v) (order_id v) (item v) (quantity v) (unit_price v) (date v)))))"
proof (intro conjI allI impI)
  show "date_formats = [''%Y-%m-%d'', ''%d/%m/%Y'', ''%Y/%m/%d'', ''%B %d %Y'']"
    by (simp add: date_formats_def)
next
  fix i d
  assume "s \<noteq> [] \<and> i < length date_formats \<and>
        py_strptime R (strip s) (date_formats ! i) = Some d \<and>
        (\<forall>j<i. py_strptime R (strip s) (date_formats ! j) = None)"
  then show "parse_date R (PStr s) = Inr (Some d)"
    using try_formats_first[of i date_formats R s d] by (simp add: parse_date_def)
next
  assume "\<forall>fmt\<in>set date_formats. py_strptime R (strip s) fmt = None"
  then show "parse_date R (PStr s) = Inr None" by (rule parse_date_none)
next
  fix row v
  assume none: "\<forall>fmt\<in>set date_formats. py_strptime R (strip s) fmt = None"
    and rv: "row_get row ''date'' = PStr s \<and> validate_row R row = Inr v"
  have d: "date v = None"
    using validate_row_cases(6)[of R row v] rv parse_date_none[OF none] by simp
  then show "date v = None" .
  have e: "''Invalid or missing date'' \<in>
           set (row_errors (customer_id v) (order_id v) (item v) (quantity v) (unit_price v) (date v))"
    using d by (simp add: row_errors_def missing_def)
  then show "''Invalid or missing date'' \<in>
           set (row_errors (customer_id v) (order_id v) (item v) (quantity v) (unit_price v) (date v))" .
  show nv: "\<not> is_valid v" using validate_row_cases(7)[of R row v] rv e by auto
  show "error_message v =
           Some (py_join ''; ''
             (row_errors (customer_id v) (order_id v) (item v) (quantity v) (unit_price v) (date v)))"
    using validate_row_cases(8)[of R row v] rv nv by simp
qed

theorem parse_date_first_format_wins_witness:
  "parse_date test_runtime (PStr ''01/06/2025'') = Inr (Some (2025, 6, 1)) \<and>
   parse_date test_runtime (PStr ''June 4 2025'') = Inr (Some (2025, 6, 4)) \<and>
   parse_date test_runtime (PStr ''30/02/2025'') = Inr None \<and>
   validate_row test_runtime (csv_row ''C1'' ''5'' ''Bolt'' ''2'' ''3'' ''30/02/2025'') =
     Inr \<lparr> customer_id = Some ''C1'', order_id = Some ''5'', item = Some ''Bolt'',
           quantity = Some 2, unit_price = Some 3, date = None, is_valid = False,
           error_message = Some ''Invalid or missing date'' \<rparr>"
proof -
  have a0: "py_strptime test_runtime (strip ''01/06/2025'') ''%Y-%m-%d'' = None" by code_simp
  have a1: "py_strptime test_runtime (strip ''01/06/2025'') ''%d/%m/%Y'' = Some (2025, 6, 1)"
    by code_simp
  have a: "''01/06/2025'' \<noteq> [] \<and> 1 < length date_formats \<and>
        py_strptime test_runtime (strip ''01/06/2025'') (date_formats ! 1) = Some (2025, 6, 1) \<and>
        (\<forall>j<1. py_strptime test_runtime (strip ''01/06/2025'') (date_formats ! j) = None)"
    using a0 a1 by (simp add: date_formats_def)
  have b0: "py_strptime test_runtime (strip ''June 4 2025'') ''%Y-%m-%d'' = None" by code_simp
  have b1: "py_strptime test_runtime (strip ''June 4 2025'') ''%d/%m/%Y'' = None" by code_simp
  have b2: "py_strptime test_runtime (strip ''June 4 2025'') ''%Y/%m/%d'' = None" by code_simp
  have b3: "py_strptime test_runtime (strip ''June 4 2025'') ''%B %d %Y'' = Some (2025, 6, 4)"
    by code_simp
  have b: "''June 4 2025'' \<noteq> [] \<and> 3 < length date_formats \<and>
        py_strptime test_runtime (strip ''June 4 2025'') (date_formats ! 3) = Some (2025, 6, 4) \<and>
        (\<forall>j<3. py_strptime test_runtime (strip ''June 4 2025'') (date_formats ! j) = None)"
    using b0 b1 b2 b3 by (simp add: date_formats_def numeral_3_eq_3 less_Suc_eq)
  have c0: "py_strptime test_runtime (strip ''30/02/2025'') ''%Y-%m-%d'' = None" by code_simp
  have c1: "py_strptime test_runtime (strip ''30/02/2025'') ''%d/%m/%Y'' = None" by code_simp
  have c2: "py_strptime test_runtime (strip ''30/02/2025'') ''%Y/%m/%d'' = None" by code_simp
  have c3: "py_strptime test_runtime (strip ''30/02/2025'') ''%B %d %Y'' = None" by code_simp
  have c: "\<forall>fmt\<in>set date_formats. py_strptime test_runtime (strip ''30/02/2025'') fmt = None"
    using c0 c1 c2 c3 by (simp add: date_formats_def)
  have v: "validate_row test_runtime (csv_row ''C1'' ''5'' ''Bolt'' ''2'' ''3'' ''30/02/2025'') =
     Inr \<lparr> customer_id = Some ''C1'', order_id = Some ''5'', item = Some ''Bolt'',
           quantity = Some 2, unit_price = Some 3, date = None, is_valid = False,
           error_message = Some ''Invalid or missing date'' \<rparr>"
    by code_simp
  from parse_date_first_format_wins[of "''01/06/2025''" test_runtime] a
  have "parse_date test_runtime (PStr ''01/06/2025'') = Inr (Some (2025, 6, 1))" by blast
  moreover from parse_date_first_format_wins[of "''June 4 2025''" test_runtime] b
  have "parse_date test_runtime (PStr ''June 4 2025'') = Inr (Some (2025, 6, 4))" by blast
  moreover from parse_date_first_format_wins[of "''30/02/2025''" test_runtime] c
  have "parse_date test_runtime (PStr ''30/02/2025'') = Inr None" by blast
  ultimately show ?thesis using v by simp
qed

text \<open>
  Claim C9, as the code has it. A record that \<^verbatim>\<open>_validate_row\<close> returned as valid holds an
  \<^verbatim>\<open>int\<close> in \<^verbatim>\<open>quantity\<close>; given to \<^verbatim>\<open>_validate_row\<close> again it raises \<^verbatim>\<open>AttributeError\<close> and
  no record comes back. Its three text fields parse to themselves.
\<close>

theorem revalidation_raises:
  "validate_row R row = Inr v \<Longrightarrow> is_valid v \<Longrightarrow>
     validate_row R (as_row v) = Inl AttributeError \<and>
     parse_string_field (row_get (as_row v) ''customer_id'') = Inr (customer_id v) \<and>
     parse_string_field (row_get (as_row v) ''order_id'') = Inr (order_id v) \<and>
     parse_string_field (row_get (as_row v) ''item'') = Inr (item v)"
proof -
  assume rv: "validate_row R row = Inr v" and valid: "is_valid v"
  from validate_row_valid[OF rv] valid have "all_present v" by simp
  then obtain c oid it q where
    f: "customer_id v = Some c" "order_id v = Some oid" "item v = Some it" "quantity v = Some q"
    by (auto simp: all_present_def)
  have c: "parse_string_field (PStr c) = Inr (Some c)"
    using validate_row_cases(1)[OF rv] f parse_string_field_again[of _ c] by metis
  have o: "parse_string_field (PStr oid) = Inr (Some oid)"
    using validate_row_cases(2)[OF rv] f parse_string_field_again[of _ oid] by metis
  have i: "parse_string_field (PStr it) = Inr (Some it)"
    using validate_row_cases(3)[OF rv] f parse_string_field_again[of _ it] by metis
  have g: "row_get (as_row v) ''customer_id'' = PStr c" "row_get (as_row v) ''order_id'' = PStr oid"
    "row_get (as_row v) ''item'' = PStr it" "row_get (as_row v) ''quantity'' = PInt q"
    using f by (simp_all add: as_row_def row_get_def opt_val_def)
  show ?thesis
    unfolding validate_row_def g c o i using f by simp
qed

theorem revalidation_raises_witness:
  "validate_row test_runtime
      (as_row \<lparr> customer_id = Some ''C1'', order_id = Some ''5'', item = Some ''Bolt'',
               quantity = Some 2, unit_price = Some 3, date = Some (2025, 6, 1),
               is_valid = True, error_message = None \<rparr>) = Inl AttributeError"
proof -
  have a: "validate_row test_runtime (csv_row ''C1'' ''5'' ''Bolt'' ''2'' ''3'' ''2025-06-01'') =
      Inr \<lparr> customer_id = Some ''C1'', order_id = Some ''5'', item = Some ''Bolt'',
               quantity = Some 2, unit_price = Some 3, date = Some (2025, 6, 1),
               is_valid = True, error_message = None \<rparr>"
    by code_simp
  from revalidation_raises[OF a] show ?thesis by simp
qed

text \<open>
  The claim as worded fails on the record of a well-formed row: validating it again
  returns no record.
\<close>

theorem revalidation_counterexample:
  "validate_row test_runtime (csv_row ''C1'' ''5'' ''Bolt'' ''2'' ''3'' ''2025-06-01'') =
      Inr \<lparr> customer_id = Some ''C1'', order_id = Some ''5'', item = Some ''Bolt'',
            quantity = Some 2, unit_price = Some 3, date = Some (2025, 6, 1),
            is_valid = True, error_message = None \<rparr> \<and>
   validate_row test_runtime
      (as_row \<lparr> customer_id = Some ''C1'', order_id = Some ''5'', item = Some ''Bolt'',
               quantity = Some 2, unit_price = Some 3, date = Some (2025, 6, 1),
               is_valid = True, error_message = None \<rparr>) = Inl AttributeError"
  by code_simp

section \<open>Properties of the export and of the aggregations\<close>

lemma export_loop_ids:
  "map e_order_id (export_loop R d xs) = filter (\<lambda>n. children d n \<noteq> []) (map o_order_id xs)"
  by (induction xs) auto

lemma price_terms_filter:
  "price_terms R xs =
     concat (map (\<lambda>x. case (i_quantity x, i_unit_price x) of
                          (Some q, Some p) \<Rightarrow> [py_mul R q p] | _ \<Rightarrow> [])
       (filter (\<lambda>x. i_item x \<noteq> blank_item \<and> i_quantity x \<noteq> None \<and> i_unit_price x \<noteq> None) xs))"
  by (induction xs) (auto split: option.splits)

lemma export_loop_total:
  "e \<in> set (export_loop R d xs) \<Longrightarrow>
     e_total_price e = py_round2 R (py_sum R (price_terms R (children d (e_order_id e)))) \<and>
     e_items e = map export_item_of (children d (e_order_id e)) \<and>
     children d (e_order_id e) \<noteq> []"
  by (induction xs) (auto split: if_splits)

text \<open>
  Claim C8. The export has one element for each row of \<^verbatim>\<open>orders\<close> that has an item in
  \<^verbatim>\<open>order_items\<close>, in the order of the table, and none for an order without items; with
  the order ids distinct, as the primary key makes them, no order has two elements. The
  \<^verbatim>\<open>total_price\<close> of an element is \<^verbatim>\<open>round(sum(...), 2)\<close> over \<^verbatim>\<open>quantity * unit_price\<close> of
  exactly the items of that order whose \<^verbatim>\<open>item\<close> is not the placeholder and whose
  \<^verbatim>\<open>quantity\<close> and \<^verbatim>\<open>unit_price\<close> are both present.
\<close>

theorem export_json_one_element_per_parent:
  "map e_order_id (export_json R d) =
     filter (\<lambda>n. \<exists>x\<in>set (order_items d). i_order_id x = SInt n) (map o_order_id (orders d)) \<and>
   (distinct (map o_order_id (orders d)) \<longrightarrow> distinct (map e_order_id (export_json R d))) \<and>
   (\<forall>e\<in>set (export_json R d).
      e_total_price e =
        py_round2 R (py_sum R
          (concat (map (\<lambda>x. case (i_quantity x, i_unit_price x) of
                               (Some q, Some p) \<Rightarrow> [py_mul R q p] | _ \<Rightarrow> [])
             (filter (\<lambda>x. i_item x \<noteq> blank_item \<and> i_quantity x \<noteq> None \<and> i_unit_price x \<noteq> None)
                (filter (\<lambda>x. i_order_id x = SInt (e_order_id e)) (order_items d)))))))"
proof (intro conjI impI ballI)
  have "(\<lambda>n. children d n \<noteq> []) = (\<lambda>n. \<exists>x\<in>set (order_items d). i_order_id x = SInt n)"
    by (auto simp: children_def filter_empty_conv)
  then show ids: "map e_order_id (export_json R d) =
     filter (\<lambda>n. \<exists>x\<in>set (order_items d). i_order_id x = SInt n) (map o_order_id (orders d))"
    by (simp add: export_json_def export_loop_ids)
  assume "distinct (map o_order_id (orders d))"
  then show "distinct (map e_order_id (export_json R d))"
    unfolding ids by (rule distinct_filter)
next
  fix e assume "e \<in> set (export_json R d)"
  then have "e_total_price e = py_round2 R (py_sum R (price_terms R (children d (e_order_id e))))"
    by (simp add: export_json_def export_loop_total)
  then show "e_total_price e =
        py_round2 R (py_sum R
          (concat (map (\<lambda>x. case (i_quantity x, i_unit_price x) of
                               (Some q, Some p) \<Rightarrow> [py_mul R q p] | _ \<Rightarrow> [])
             (filter (\<lambda>x. i_item x \<noteq> blank_item \<and> i_quantity x \<noteq> None \<and> i_unit_price x \<noteq> None)
                (filter (\<lambda>x. i_order_id x = SInt (e_order_id e)) (order_items d))))))"
    by (simp only: price_terms_filter children_def)
qed

theorem export_json_one_element_per_parent_witness:
  "map e_order_id (export_json test_runtime sample_db) = [1, 3] \<and>
   map e_total_price (export_json test_runtime sample_db) = [22, 0] \<and>
   distinct (map e_order_id (export_json test_runtime sample_db))"
proof -
  have ev: "map e_order_id (export_json test_runtime sample_db) = [1, 3]"
    "map e_total_price (export_json test_runtime sample_db) = [22, 0]"
    "distinct (map o_order_id (orders sample_db))"
    by code_simp+
  from export_json_one_element_per_parent[of test_runtime sample_db] ev(3)
  have "distinct (map e_order_id (export_json test_runtime sample_db))" by blast
  with ev show ?thesis by simp
qed

lemma children_reflag:
  "children (reflag g d) n = map (\<lambda>x. x \<lparr> i_is_valid := g x \<rparr>) (children d n)"
  by (simp add: children_def reflag_def filter_map comp_def)

lemma sql_line_total_reflag: "sql_line_total R (x \<lparr> i_is_valid := b \<rparr>) = sql_line_total R x"
  by (simp add: sql_line_total_def)

lemma map_filter_map: "List.map_filter f (map g xs) = List.map_filter (f \<circ> g) xs"
  by (simp add: List.map_filter_def filter_map comp_def)

lemma order_terms_reflag: "order_terms R (reflag g d) n = order_terms R d n"
  by (simp add: order_terms_def children_reflag filter_map comp_def map_filter_map
      sql_line_total_reflag)

lemma customer_terms_reflag: "customer_terms R (reflag g d) c = customer_terms R d c"
proof -
  have "orders (reflag g d) = orders d" by (simp add: reflag_def)
  then show ?thesis
    by (simp add: customer_terms_def children_reflag map_filter_map comp_def sql_line_total_reflag)
qed

lemma price_terms_reflag:
  "price_terms R (map (\<lambda>x. x \<lparr> i_is_valid := g x \<rparr>) xs) = price_terms R xs"
  by (induction xs) (auto split: option.splits)

lemma export_loop_reflag:
  "map e_total_price (export_loop R (reflag g d) xs) = map e_total_price (export_loop R d xs)"
  by (induction xs) (auto simp: children_reflag price_terms_reflag)

lemma totals_reflag: "get_total_order_values R (reflag g d) = get_total_order_values R d"
proof -
  have "orders (reflag g d) = orders d" by (simp add: reflag_def)
  then show ?thesis
    by (simp add: get_total_order_values_def order_terms_reflag cong: if_cong)
qed

lemma top_reflag: "get_top_customer R (reflag g d) = get_top_customer R d"
proof -
  have "orders (reflag g d) = orders d" by (simp add: reflag_def)
  then show ?thesis
    by (simp add: get_top_customer_def customer_totals_def customer_terms_reflag cong: if_cong)
qed

lemma export_reflag:
  "map e_total_price (export_json R (reflag g d)) = map e_total_price (export_json R d)"
proof -
  have "orders (reflag g d) = orders d" by (simp add: reflag_def)
  then show ?thesis by (simp add: export_json_def export_loop_reflag)
qed

lemma line_total_in_order_terms:
  "x \<in> set (order_items d) \<Longrightarrow> i_order_id x = SInt n \<Longrightarrow> i_item x \<noteq> blank_item \<Longrightarrow>
   i_quantity x = Some q \<Longrightarrow> i_unit_price x = Some p \<Longrightarrow> sql_mul R q p \<in> set (order_terms R d n)"
  by (force simp: order_terms_def children_def List.map_filter_def sql_line_total_def)

lemma line_total_in_price_terms:
  "x \<in> set xs \<Longrightarrow> i_item x \<noteq> blank_item \<Longrightarrow>
   i_quantity x = Some q \<Longrightarrow> i_unit_price x = Some p \<Longrightarrow> py_mul R q p \<in> set (price_terms R xs)"
  by (induction xs) (auto split: option.splits)

lemma line_total_in_customer_terms:
  "x \<in> set (order_items d) \<Longrightarrow> i_order_id x = SInt (o_order_id y) \<Longrightarrow> y \<in> set (orders d) \<Longrightarrow>
   i_quantity x = Some q \<Longrightarrow> i_unit_price x = Some p \<Longrightarrow>
     sql_mul R q p \<in> set (customer_terms R d (o_customer_id y))"
  by (force simp: customer_terms_def children_def List.map_filter_def sql_line_total_def)

lemma total_row_present:
  "y \<in> set (orders d) \<Longrightarrow> order_terms R d (o_order_id y) \<noteq> [] \<Longrightarrow>
     (o_order_id y, o_customer_id y, sql_sum R (order_terms R d (o_order_id y)))
       \<in> set (get_total_order_values R d)"
  by (force simp: get_total_order_values_def)

lemma customer_total_present:
  "y \<in> set (orders d) \<Longrightarrow> customer_terms R d (o_customer_id y) \<noteq> [] \<Longrightarrow>
     (o_customer_id y, sql_sum R (customer_terms R d (o_customer_id y)))
       \<in> set (customer_totals R d)"
  by (force simp: customer_totals_def)

lemma export_element_present:
  "y \<in> set xs \<Longrightarrow> children d (o_order_id y) \<noteq> [] \<Longrightarrow>
     \<exists>e\<in>set (export_loop R d xs). e_order_id e = o_order_id y \<and>
        e_total_price e = py_round2 R (py_sum R (price_terms R (children d (o_order_id y))))"
  by (induction xs) auto

text \<open>
  Claim C10. The per-order totals, the top customer and the \<^verbatim>\<open>total_price\<close> of the export
  do not read \<^verbatim>\<open>is_valid\<close>: they are the same whatever the flags are. An item that is not
  valid, with \<^verbatim>\<open>quantity\<close> and \<^verbatim>\<open>unit_price\<close> present, is a summand of its customer's
  total and, unless its \<^verbatim>\<open>item\<close> is the placeholder, of its order's total and of the
  \<^verbatim>\<open>total_price\<close> of its order's element in the export.
\<close>

theorem aggregations_ignore_is_valid:
  "get_total_order_values R (reflag g d) = get_total_order_values R d \<and>
   get_top_customer R (reflag g d) = get_top_customer R d \<and>
   map e_total_price (export_json R (reflag g d)) = map e_total_price (export_json R d) \<and>
   (\<forall>x\<in>set (order_items d). \<forall>y\<in>set (orders d). \<forall>q p.
      \<not> i_is_valid x \<and> i_quantity x = Some q \<and> i_unit_price x = Some p \<and>
      i_order_id x = SInt (o_order_id y) \<longrightarrow>
        sql_mul R q p \<in> set (customer_terms R d (o_customer_id y)) \<and>
        (o_customer_id y, sql_sum R (customer_terms R d (o_customer_id y)))
           \<in> set (customer_totals R d) \<and>
        (i_item x \<noteq> blank_item \<longrightarrow>
           sql_mul R q p \<in> set (order_terms R d (o_order_id y)) \<and>
           (o_order_id y, o_customer_id y, sql_sum R (order_terms R d (o_order_id y)))
              \<in> set (get_total_order_values R d) \<and>
           py_mul R q p \<in> set (price_terms R (children d (o_order_id y))) \<and>
           (\<exists>e\<in>set (export_json R d). e_order_id e = o_order_id y \<and>
              e_total_price e =
                py_round2 R (py_sum R (price_terms R (children d (o_order_id y)))))))"
proof (intro conjI ballI allI impI)
  show "get_total_order_values R (reflag g d) = get_total_order_values R d"
    by (rule totals_reflag)
  show "get_top_customer R (reflag g d) = get_top_customer R d"
    by (rule top_reflag)
  show "map e_total_price (export_json R (reflag g d)) = map e_total_price (export_json R d)"
    by (rule export_reflag)
next
  fix x y q p
  assume x: "x \<in> set (order_items d)" and y: "y \<in> set (orders d)"
    and h: "\<not> i_is_valid x \<and> i_quantity x = Some q \<and> i_unit_price x = Some p \<and>
      i_order_id x = SInt (o_order_id y)"
  from line_total_in_customer_terms[OF x _ y, of q p R] h
  show ct: "sql_mul R q p \<in> set (customer_terms R d (o_customer_id y))" by simp
  then have "customer_terms R d (o_customer_id y) \<noteq> []" by auto
  then show "(o_customer_id y, sql_sum R (customer_terms R d (o_customer_id y)))
           \<in> set (customer_totals R d)"
    by (rule customer_total_present[OF y])
next
  fix x y q p
  assume x: "x \<in> set (order_items d)" and y: "y \<in> set (orders d)"
    and h: "\<not> i_is_valid x \<and> i_quantity x = Some q \<and> i_unit_price x = Some p \<and>
      i_order_id x = SInt (o_order_id y)"
    and nb: "i_item x \<noteq> blank_item"
  from line_total_in_order_terms[OF x _ nb, of "o_order_id y" q p R] h
  show ot: "sql_mul R q p \<in> set (order_terms R d (o_order_id y))" by simp
  then have "order_terms R d (o_order_id y) \<noteq> []" by auto
  then show "(o_order_id y, o_customer_id y, sql_sum R (order_terms R d (o_order_id y)))
              \<in> set (get_total_order_values R d)"
    by (rule total_row_present[OF y])
  have xc: "x \<in> set (children d (o_order_id y))" using x h by (simp add: children_def)
  from line_total_in_price_terms[OF xc nb, of q p R] h
  show "py_mul R q p \<in> set (price_terms R (children d (o_order_id y)))" by simp
  have "children d (o_order_id y) \<noteq> []" using xc by auto
  from export_element_present[OF y this, of R]
  show "\<exists>e\<in>set (export_json R d). e_order_id e = o_order_id y \<and>
              e_total_price e =
                py_round2 R (py_sum R (price_terms R (children d (o_order_id y))))"
    by (simp add: export_json_def)
qed

theorem aggregations_ignore_is_valid_witness:
  "(12::int) \<in> set (order_terms test_runtime sample_db 1) \<and>
   (1, Some (SText ''C1''), 22) \<in> set (get_total_order_values test_runtime sample_db) \<and>
   (Some (SText ''C1''), 29) \<in> set (customer_totals test_runtime sample_db) \<and>
   get_top_customer test_runtime sample_db = Some (Some (SText ''C1''), 29) \<and>
   (\<exists>e\<in>set (export_json test_runtime sample_db). e_order_id e = 1 \<and> e_total_price e = 22)"
proof -
  have x: "bolt_item \<in> set (order_items sample_db)" by (simp add: sample_db_def bolt_item_def)
  have y: "first_order \<in> set (orders sample_db)" by (simp add: sample_db_def first_order_def)
  have h: "\<not> i_is_valid bolt_item \<and> i_quantity bolt_item = Some 3 \<and> i_unit_price bolt_item = Some 4 \<and>
      i_order_id bolt_item = SInt (o_order_id first_order)"
    by (simp add: bolt_item_def first_order_def sample_db_def)
  have nb: "i_item bolt_item \<noteq> blank_item"
    by (simp add: bolt_item_def blank_item_def sample_db_def)
  have ev: "sql_mul test_runtime 3 4 = 12" "o_order_id first_order = 1"
    "o_customer_id first_order = Some (SText ''C1'')"
    "sql_sum test_runtime (order_terms test_runtime sample_db 1) = 22"
    "sql_sum test_runtime (customer_terms test_runtime sample_db (Some (SText ''C1''))) = 29"
    "py_round2 test_runtime (py_sum test_runtime (price_terms test_runtime (children sample_db 1))) = 22"
    "get_top_customer test_runtime sample_db = Some (Some (SText ''C1''), 29)"
    by code_simp+
  from aggregations_ignore_is_valid[of test_runtime "\<lambda>x. True" sample_db] x y h nb
  have "sql_mul test_runtime 3 4 \<in> set (order_terms test_runtime sample_db (o_order_id first_order)) \<and>
        (o_order_id first_order, o_customer_id first_order,
           sql_sum test_runtime (order_terms test_runtime sample_db (o_order_id first_order)))
              \<in> set (get_total_order_values test_runtime sample_db) \<and>
        (o_customer_id first_order,
           sql_sum test_runtime (customer_terms test_runtime sample_db (o_customer_id first_order)))
           \<in> set (customer_totals test_runtime sample_db) \<and>
        (\<exists>e\<in>set (export_json test_runtime sample_db). e_order_id e = o_order_id first_order \<and>
              e_total_price e =
                py_round2 test_runtime (py_sum test_runtime
                   (price_terms test_runtime (children sample_db (o_order_id first_order)))))"
    by blast
  then show ?thesis by (simp add: ev)
qed

section \<open>Properties of the connection and of a whole run\<close>

subsection \<open>Single calls\<close>

lemma execute_Inr:
  "execute F stmt c = Inr c' \<Longrightarrow>
     stmt (working c) = Inr (working c') \<and> durable c' = durable c \<and> in_tx c' \<and>
     ticks c' = Suc (ticks c) \<and> ticks c \<notin> F"
  by (auto simp: execute_def split: if_splits sum.splits)

lemma execute_Inl:
  "execute F stmt c = Inl (e, c') \<Longrightarrow> durable c' = durable c \<and> working c' = working c"
  by (auto simp: execute_def split: if_splits sum.splits)

lemma execute_ddl_Inr:
  "execute_ddl F stmt c = Inr c' \<Longrightarrow>
     stmt (working c) = Inr (working c') \<and> in_tx c' = in_tx c \<and>
     durable c' = (if in_tx c then durable c else working c') \<and> ticks c' = Suc (ticks c)"
  by (auto simp: execute_ddl_def split: if_splits sum.splits)

lemma execute_ddl_Inl:
  "execute_ddl F stmt c = Inl (e, c') \<Longrightarrow> durable c' = durable c \<and> working c' = working c"
  by (auto simp: execute_ddl_def split: if_splits sum.splits)

lemma execute_select_Inr:
  "execute_select F c = Inr c' \<Longrightarrow>
     working c' = working c \<and> durable c' = durable c \<and> in_tx c' = in_tx c"
  by (auto simp: execute_select_def split: if_splits)

lemma execute_select_Inl:
  "execute_select F c = Inl (e, c') \<Longrightarrow> durable c' = durable c \<and> working c' = working c"
  by (auto simp: execute_select_def split: if_splits)

lemma commit_Inr:
  "commit F c = Inr c' \<Longrightarrow> working c' = working c \<and> durable c' = working c \<and> \<not> in_tx c'"
  by (auto simp: commit_def split: if_splits)

lemma commit_Inl:
  "commit F c = Inl (e, c') \<Longrightarrow> durable c' = durable c \<and> working c' = working c"
  by (auto simp: commit_def split: if_splits)

subsection \<open>The loops and the whole run\<close>

lemma load_staging_Inr:
  "load_staging F R rs c = Inr c' \<Longrightarrow>
     stage_all R rs (working c) = Inr (working c') \<and> durable c' = durable c"
proof (induction rs arbitrary: c)
  case Nil then show ?case by simp
next
  case (Cons r rs)
  from Cons.prems obtain c1 where 1: "execute F (insert_staging R r) c = Inr c1"
    and 2: "load_staging F R rs c1 = Inr c'"
    by (auto split: sum.splits)
  from execute_Inr[OF 1] Cons.IH[OF 2] show ?case by simp
qed

lemma insert_staging_production:
  "insert_staging R r d = Inr d' \<Longrightarrow> production d' = production d"
  by (auto simp: insert_staging_def production_def split: sum.splits option.splits)

lemma stage_all_production:
  "stage_all R rs d = Inr d' \<Longrightarrow> production d' = production d"
  by (induction rs arbitrary: d) (auto split: sum.splits dest: insert_staging_production)

lemma load_staging_Inl:
  "load_staging F R rs c = Inl (e, c') \<Longrightarrow>
     durable c' = durable c \<and> production (working c') = production (working c)"
proof (induction rs arbitrary: c)
  case Nil then show ?case by simp
next
  case (Cons r rs)
  show ?case
  proof (cases "execute F (insert_staging R r) c")
    case (Inl a)
    with Cons.prems have "a = (e, c')" by simp
    with Inl execute_Inl[of F _ c e c'] show ?thesis by simp
  next
    case (Inr c1)
    with Cons.prems have 2: "load_staging F R rs c1 = Inl (e, c')" by simp
    from execute_Inr[OF Inr] insert_staging_production[of R r "working c" "working c1"]
      Cons.IH[OF 2] show ?thesis by simp
  qed
qed

lemma upsert_staged_Inr:
  "upsert_staged F ss c = Inr c' \<Longrightarrow>
     upsert_all ss (working c) = Inr (working c') \<and> durable c' = durable c"
proof (induction ss arbitrary: c)
  case Nil then show ?case by simp
next
  case (Cons s ss)
  from Cons.prems obtain c1 c2 where
    1: "execute F (upsert_order (s_order_id s) (s_customer_id s) (s_order_date s)) c = Inr c1"
    and 2: "execute F (upsert_order_item (s_order_id s) (s_item s) (s_quantity s) (s_unit_price s)
                     (s_is_valid s) (s_error_message s)) c1 = Inr c2"
    and 3: "upsert_staged F ss c2 = Inr c'"
    by (auto split: sum.splits)
  from execute_Inr[OF 1] execute_Inr[OF 2] Cons.IH[OF 3] show ?case by simp
qed

lemma upsert_staged_Inl:
  "upsert_staged F ss c = Inl (e, c') \<Longrightarrow> durable c' = durable c"
proof (induction ss arbitrary: c)
  case Nil then show ?case by simp
next
  case (Cons s ss)
  show ?case
  proof (cases "execute F (upsert_order (s_order_id s) (s_customer_id s) (s_order_date s)) c")
    case (Inl a)
    with Cons.prems have "a = (e, c')" by simp
    with Inl execute_Inl[of F _ c e c'] show ?thesis by simp
  next
    case (Inr c1)
    note 1 = this
    show ?thesis
    proof (cases "execute F (upsert_order_item (s_order_id s) (s_item s) (s_quantity s) (s_unit_price s)
                     (s_is_valid s) (s_error_message s)) c1")
      case (Inl a)
      with Cons.prems 1 have "a = (e, c')" by simp
      with Inl execute_Inl[of F _ c1 e c'] execute_Inr[OF 1] show ?thesis by simp
    next
      case (Inr c2)
      with Cons.prems 1 have "upsert_staged F ss c2 = Inl (e, c')" by simp
      from Cons.IH[OF this] execute_Inr[OF 1] execute_Inr[OF Inr] show ?thesis by simp
    qed
  qed
qed

lemma production_simps [simp]:
  "production (d \<lparr> staging_order_items := st \<rparr>) = production d"
  by (simp add: production_def)

lemma ddl_clear_Inr:
  "execute_ddl F clear_staging c = Inr c' \<Longrightarrow> production (working c) = production (durable c) \<Longrightarrow>
     working c' = (working c) \<lparr> staging_order_items := [] \<rparr> \<and>
     production (durable c') = production (durable c) \<and> in_tx c' = in_tx c \<and>
     (\<not> in_tx c \<longrightarrow> durable c' = working c')"
  by (auto simp: execute_ddl_def clear_staging_def split: if_splits)

lemma ddl_noop_Inr:
  "execute_ddl F Inr c = Inr c' \<Longrightarrow> production (working c) = production (durable c) \<Longrightarrow>
     working c' = working c \<and> production (durable c') = production (durable c) \<and>
     in_tx c' = in_tx c \<and> (\<not> in_tx c \<longrightarrow> durable c' = working c')"
  by (auto simp: execute_ddl_def split: if_splits)

lemma incremental_sync_Inl:
  assumes "incremental_sync F R batch c = Inl (e, c')"
    and "production (working c) = production (durable c)"
  shows "production (durable c') = production (durable c)"
proof -
  let ?P = "production (durable c)"
  show ?thesis
  proof (cases "execute_ddl F clear_staging c")
    case (Inl a)
    with assms(1) have "a = (e, c')" by (simp add: incremental_sync_def)
    with Inl execute_ddl_Inl[of F _ c e c'] show ?thesis by simp
  next
    case (Inr c1)
    note s1 = this
    from ddl_clear_Inr[OF s1 assms(2)]
    have p1: "production (working c1) = ?P" "production (durable c1) = ?P"
      using assms(2) by simp_all
    show ?thesis
    proof (cases "execute_ddl F clear_staging c1")
      case (Inl a)
      with assms(1) s1 have "a = (e, c')" by (simp add: incremental_sync_def)
      with Inl execute_ddl_Inl[of F _ c1 e c'] p1 show ?thesis by simp
    next
      case (Inr c2)
      note s2 = this
      from ddl_clear_Inr[OF s2] p1
      have p2: "production (working c2) = ?P" "production (durable c2) = ?P" by simp_all
      show ?thesis
      proof (cases "load_staging F R batch c2")
        case (Inl a)
        with assms(1) s1 s2 have "a = (e, c')" by (simp add: incremental_sync_def)
        with Inl load_staging_Inl[of F R batch c2 e c'] p2 show ?thesis by simp
      next
        case (Inr c3)
        note s3 = this
        from load_staging_Inr[OF s3] stage_all_production[of R batch "working c2" "working c3"] p2
        have p3: "production (working c3) = ?P" "production (durable c3) = ?P" by simp_all
        show ?thesis
        proof (cases "commit F c3")
          case (Inl a)
          with assms(1) s1 s2 s3 have "a = (e, c')" by (simp add: incremental_sync_def)
          with Inl commit_Inl[of F c3 e c'] p3 show ?thesis by simp
        next
          case (Inr c4)
          note s4 = this
          from commit_Inr[OF s4] p3 have p4: "production (durable c4) = ?P" by simp
          show ?thesis
          proof (cases "execute_select F c4")
            case (Inl a)
            with assms(1) s1 s2 s3 s4 have "a = (e, c')" by (simp add: incremental_sync_def)
            with Inl execute_select_Inl[of F c4 e c'] p4 show ?thesis by simp
          next
            case (Inr c5)
            note s5 = this
            from execute_select_Inr[OF s5] p4 have p5: "production (durable c5) = ?P" by simp
            show ?thesis
            proof (cases "upsert_staged F (staging_order_items (working c5)) c5")
              case (Inl a)
              with assms(1) s1 s2 s3 s4 s5 have "a = (e, c')" by (simp add: incremental_sync_def)
              with Inl upsert_staged_Inl[of F _ c5 e c'] p5 show ?thesis by simp
            next
              case (Inr c6)
              note s6 = this
              from upsert_staged_Inr[OF s6] p5 have p6: "production (durable c6) = ?P" by simp
              show ?thesis
              proof (cases "execute F delete_missing c6")
                case (Inl a)
                with assms(1) s1 s2 s3 s4 s5 s6 have "a = (e, c')" by (simp add: incremental_sync_def)
                with Inl execute_Inl[of F _ c6 e c'] p6 show ?thesis by simp
              next
                case (Inr c7)
                note s7 = this
                from execute_Inr[OF s7] p6 have p7: "production (durable c7) = ?P" by simp
                show ?thesis
                proof (cases "execute F delete_orphans c7")
                  case (Inl a)
                  with assms(1) s1 s2 s3 s4 s5 s6 s7 have "a = (e, c')"
                    by (simp add: incremental_sync_def)
                  with Inl execute_Inl[of F _ c7 e c'] p7 show ?thesis by simp
                next
                  case (Inr c8)
                  note s8 = this
                  from execute_Inr[OF s8] p7 have p8: "production (durable c8) = ?P" by simp
                  from assms(1) s1 s2 s3 s4 s5 s6 s7 s8
                  have "execute F clear_staging c8 = Inl (e, c')"
                    by (simp add: incremental_sync_def)
                  from execute_Inl[OF this] p8 show ?thesis by simp
                qed
              qed
            qed
          qed
        qed
      qed
    qed
  qed
qed

lemma incremental_sync_Inr:
  assumes "incremental_sync F R batch c = Inr c'"
    and "\<not> in_tx c" and "working c = durable c"
  shows "sync_db R batch (working c) = Inr (working c') \<and>
         production (durable c') = production (durable c)"
proof -
  from assms(1) obtain c1 c2 c3 c4 c5 c6 c7 c8 where
    s1: "execute_ddl F clear_staging c = Inr c1" and
    s2: "execute_ddl F clear_staging c1 = Inr c2" and
    s3: "load_staging F R batch c2 = Inr c3" and
    s4: "commit F c3 = Inr c4" and
    s5: "execute_select F c4 = Inr c5" and
    s6: "upsert_staged F (staging_order_items (working c5)) c5 = Inr c6" and
    s7: "execute F delete_missing c6 = Inr c7" and
    s8: "execute F delete_orphans c7 = Inr c8" and
    s9: "execute F clear_staging c8 = Inr c'"
    unfolding incremental_sync_def by (auto split: sum.splits)
  have w1: "working c1 = (working c) \<lparr> staging_order_items := [] \<rparr>"
    using ddl_clear_Inr[OF s1] assms(3) by simp
  have w2: "working c2 = (working c) \<lparr> staging_order_items := [] \<rparr>"
    using ddl_clear_Inr[OF s2] ddl_clear_Inr[OF s1] assms(3) w1 by simp
  have st: "stage_all R batch ((working c) \<lparr> staging_order_items := [] \<rparr>) = Inr (working c3)"
    using load_staging_Inr[OF s3] w2 by simp
  have w5: "working c5 = working c3" "durable c5 = working c3"
    using commit_Inr[OF s4] execute_select_Inr[OF s5] by simp_all
  have up: "upsert_all (staging_order_items (working c3)) (working c3) = Inr (working c6)"
    and d6: "durable c6 = working c3"
    using upsert_staged_Inr[OF s6] w5 by simp_all
  have r: "delete_missing (working c6) = Inr (working c7)"
    "delete_orphans (working c7) = Inr (working c8)"
    "clear_staging (working c8) = Inr (working c')"
    "durable c' = working c3"
    using execute_Inr[OF s7] execute_Inr[OF s8] execute_Inr[OF s9] d6 by simp_all
  have "production (working c3) = production (working c)"
    using stage_all_production[OF st] by simp
  with st up r assms(3) show ?thesis by (simp add: sync_db_def)
qed

lemma setup_database_Inl:
  "setup_database F R d batch = Inl (e, c') \<Longrightarrow> production (durable c') = production d"
proof -
  assume a: "setup_database F R d batch = Inl (e, c')"
  have c0: "production (working (connect d)) = production (durable (connect d))"
    "durable (connect d) = d" "\<not> in_tx (connect d)" "working (connect d) = d"
    by (simp_all add: connect_def)
  show ?thesis
  proof (cases "execute_ddl F Inr (connect d)")
    case (Inl x)
    with a have "x = (e, c')" by (simp add: setup_database_def create_main_tables_def)
    with Inl execute_ddl_Inl[of F _ "connect d" e c'] c0 show ?thesis by simp
  next
    case (Inr c1)
    note s1 = this
    from ddl_noop_Inr[OF s1 c0(1)] c0
    have p1: "production (working c1) = production d" "production (durable c1) = production d"
      by simp_all
    show ?thesis
    proof (cases "execute_ddl F Inr c1")
      case (Inl x)
      with a s1 have "x = (e, c')" by (simp add: setup_database_def create_main_tables_def)
      with Inl execute_ddl_Inl[of F _ c1 e c'] p1 show ?thesis by simp
    next
      case (Inr c2)
      note s2 = this
      from ddl_noop_Inr[OF s2] p1
      have p2: "production (working c2) = production d" "production (durable c2) = production d"
        by simp_all
      show ?thesis
      proof (cases "incremental_sync F R batch c2")
        case (Inl x)
        with a s1 s2 have "x = (e, c')" by (simp add: setup_database_def create_main_tables_def)
        with Inl incremental_sync_Inl[of F R batch c2 e c'] p2 show ?thesis by simp
      next
        case (Inr c3)
        with a s1 s2 have cm: "commit F c3 = Inl (e, c')"
          by (simp add: setup_database_def create_main_tables_def)
        have c2: "\<not> in_tx c2" "working c2 = durable c2"
          using ddl_noop_Inr[OF s1 c0(1)] ddl_noop_Inr[OF s2] p1 c0 by simp_all
        from incremental_sync_Inr[OF Inr c2] p2 commit_Inl[OF cm] show ?thesis by simp
      qed
    qed
  qed
qed

lemma setup_database_Inr:
  assumes "setup_database F R d batch = Inr c'"
  shows "sync_db R batch d = Inr (durable c') \<and> working c' = durable c'"
proof -
  from assms obtain c1 c2 c3 where
    s1: "execute_ddl F Inr (connect d) = Inr c1" and
    s2: "execute_ddl F Inr c1 = Inr c2" and
    s3: "incremental_sync F R batch c2 = Inr c3" and
    s4: "commit F c3 = Inr c'"
    unfolding setup_database_def create_main_tables_def by (auto split: sum.splits)
  have c0: "production (working (connect d)) = production (durable (connect d))"
    "durable (connect d) = d" "\<not> in_tx (connect d)" "working (connect d) = d"
    by (simp_all add: connect_def)
  have c1: "\<not> in_tx c1" "working c1 = d" "durable c1 = d"
    using ddl_noop_Inr[OF s1 c0(1)] c0 by simp_all
  have c2: "\<not> in_tx c2" "working c2 = d" "durable c2 = d"
    using ddl_noop_Inr[OF s2] c1 by simp_all
  from incremental_sync_Inr[OF s3] c2 commit_Inr[OF s4] show ?thesis by simp
qed

lemma execute_no_fault:
  "stmt (working c) = Inr w \<Longrightarrow> \<exists>c'. execute {} stmt c = Inr c'"
  by (simp add: execute_def)

lemma load_staging_total:
  "stage_all R rs (working c) = Inr w \<Longrightarrow> \<exists>c'. load_staging {} R rs c = Inr c'"
proof (induction rs arbitrary: c)
  case Nil then show ?case by simp
next
  case (Cons r rs)
  from Cons.prems obtain d1 where 1: "insert_staging R r (working c) = Inr d1"
    and 2: "stage_all R rs d1 = Inr w"
    by (auto split: sum.splits)
  from execute_no_fault[of "insert_staging R r" c d1] 1
  obtain c1 where e: "execute {} (insert_staging R r) c = Inr c1"
    by blast
  with execute_Inr[OF e] 1 have "working c1 = d1" by simp
  with Cons.IH[of c1] 2 e show ?case by simp
qed

lemma upsert_staged_total:
  "upsert_all ss (working c) = Inr w \<Longrightarrow> \<exists>c'. upsert_staged {} ss c = Inr c'"
proof (induction ss arbitrary: c)
  case Nil then show ?case by simp
next
  case (Cons s ss)
  from Cons.prems obtain d1 d2 where
    1: "upsert_order (s_order_id s) (s_customer_id s) (s_order_date s) (working c) = Inr d1"
    and 2: "upsert_order_item (s_order_id s) (s_item s) (s_quantity s) (s_unit_price s)
                  (s_is_valid s) (s_error_message s) d1 = Inr d2"
    and 3: "upsert_all ss d2 = Inr w"
    by (auto split: sum.splits)
  from execute_no_fault[of "upsert_order (s_order_id s) (s_customer_id s) (s_order_date s)" c d1] 1
  obtain c1 where
    e1: "execute {} (upsert_order (s_order_id s) (s_customer_id s) (s_order_date s)) c = Inr c1"
    by blast
  with execute_Inr[OF e1] 1 have w1: "working c1 = d1" by simp
  from execute_no_fault[of "upsert_order_item (s_order_id s) (s_item s) (s_quantity s) (s_unit_price s)
                  (s_is_valid s) (s_error_message s)" c1 d2] 2 w1
  obtain c2 where
    e2: "execute {} (upsert_order_item (s_order_id s) (s_item s) (s_quantity s) (s_unit_price s)
                  (s_is_valid s) (s_error_message s)) c1 = Inr c2"
    by blast
  with execute_Inr[OF e2] 2 w1 have "working c2 = d2" by simp
  with Cons.IH[of c2] 3 e1 e2 show ?case by simp
qed

lemma setup_database_total:
  assumes "sync_db R batch d = Inr d'"
  shows "\<exists>c'. setup_database {} R d batch = Inr c' \<and> durable c' = d'"
proof -
  from assms obtain d1 d2 d3 d4 where
    p1: "stage_all R batch (d \<lparr> staging_order_items := [] \<rparr>) = Inr d1" and
    p2: "upsert_all (staging_order_items d1) d1 = Inr d2" and
    p3: "delete_missing d2 = Inr d3" and
    p4: "delete_orphans d3 = Inr d4" and
    p5: "clear_staging d4 = Inr d'"
    unfolding sync_db_def by (auto split: sum.splits)
  define c2 where "c2 = \<lparr> durable = d \<lparr> staging_order_items := [] \<rparr>,
      working = d \<lparr> staging_order_items := [] \<rparr>, in_tx = False, ticks = 4 \<rparr>"
  have pre: "create_main_tables {} (connect d) =
      Inr \<lparr> durable = d, working = d, in_tx = False, ticks = 2 \<rparr>"
    by (simp add: create_main_tables_def execute_ddl_def connect_def)
  have ddl: "execute_ddl {} clear_staging \<lparr> durable = d, working = d, in_tx = False, ticks = 2 \<rparr> =
       Inr \<lparr> durable = d \<lparr> staging_order_items := [] \<rparr>,
             working = d \<lparr> staging_order_items := [] \<rparr>, in_tx = False, ticks = 3 \<rparr>"
    "execute_ddl {} clear_staging \<lparr> durable = d \<lparr> staging_order_items := [] \<rparr>,
             working = d \<lparr> staging_order_items := [] \<rparr>, in_tx = False, ticks = 3 \<rparr> = Inr c2"
    by (simp_all add: execute_ddl_def clear_staging_def c2_def)
  have "working c2 = d \<lparr> staging_order_items := [] \<rparr>" by (simp add: c2_def)
  with load_staging_total[of R batch c2 d1] p1 obtain c3 where
    s3: "load_staging {} R batch c2 = Inr c3" by auto
  with load_staging_Inr[OF s3] p1 have w3: "working c3 = d1" by (simp add: c2_def)
  obtain c4 where s4: "commit {} c3 = Inr c4" by (simp add: commit_def)
  obtain c5 where s5: "execute_select {} c4 = Inr c5" by (simp add: execute_select_def)
  have w5: "working c5 = d1" using commit_Inr[OF s4] execute_select_Inr[OF s5] w3 by simp
  with upsert_staged_total[of "staging_order_items d1" c5 d2] p2 obtain c6 where
    s6: "upsert_staged {} (staging_order_items (working c5)) c5 = Inr c6" by auto
  with upsert_staged_Inr[OF s6] p2 w5 have w6: "working c6 = d2" by simp
  from execute_no_fault[of delete_missing c6] p3 w6 obtain c7 where
    s7: "execute {} delete_missing c6 = Inr c7" by auto
  with execute_Inr[OF s7] p3 w6 have w7: "working c7 = d3" by simp
  from execute_no_fault[of delete_orphans c7] p4 w7 obtain c8 where
    s8: "execute {} delete_orphans c7 = Inr c8" by auto
  with execute_Inr[OF s8] p4 w7 have w8: "working c8 = d4" by simp
  from execute_no_fault[of clear_staging c8] p5 w8 obtain c9 where
    s9: "execute {} clear_staging c8 = Inr c9" by auto
  with execute_Inr[OF s9] p5 w8 have w9: "working c9 = d'" by simp
  obtain c' where s10: "commit {} c9 = Inr c'" by (simp add: commit_def)
  have "incremental_sync {} R batch \<lparr> durable = d, working = d, in_tx = False, ticks = 2 \<rparr> = Inr c9"
    by (simp add: incremental_sync_def ddl s3 s4 s5 s6 s7 s8 s9)
  then have "setup_database {} R d batch = Inr c'"
    by (simp add: setup_database_def pre s10)
  moreover have "durable c' = d'" using commit_Inr[OF s10] w9 by simp
  ultimately show ?thesis by blast
qed

text \<open>
  Claim C2, as the code has it. Whatever ends a sync early, an exception of a statement
  or a failure of the storage layer at any call, the committed \<^verbatim>\<open>orders\<close> and
  \<^verbatim>\<open>order_items\<close> are those found before the sync: all changes to the two tables are
  made in the one transaction that the final \<^verbatim>\<open>conn.commit()\<close> of \<^verbatim>\<open>setup_database\<close> ends.
  A run that returns has committed everything the statements of the sync produce.
\<close>

theorem failed_sync_keeps_production:
  "(\<forall>e c'. setup_database F R d batch = Inl (e, c') \<longrightarrow>
      orders (durable c') = orders d \<and> order_items (durable c') = order_items d) \<and>
   (\<forall>c'. setup_database F R d batch = Inr c' \<longrightarrow>
      sync_db R batch d = Inr (durable c') \<and> working c' = durable c')"
proof (intro conjI allI impI)
  fix e c' assume "setup_database F R d batch = Inl (e, c')"
  from setup_database_Inl[OF this]
  show "orders (durable c') = orders d" "order_items (durable c') = order_items d"
    by (simp_all add: production_def)
next
  fix c' assume "setup_database F R d batch = Inr c'"
  from setup_database_Inr[OF this]
  show "sync_db R batch d = Inr (durable c')" "working c' = durable c'" by simp_all
qed

lemma outcome_failed: "outcome res = (Some e, d) \<Longrightarrow> \<exists>c. res = Inl (e, c) \<and> durable c = d"
  by (auto simp: outcome_def split: sum.splits)

lemma outcome_ok: "outcome res = (None, d) \<Longrightarrow> \<exists>c. res = Inr c \<and> durable c = d"
  by (auto simp: outcome_def split: sum.splits)

lemma run_12: "outcome (setup_database {12} test_runtime bolt_db [nut_record ''6'']) =
     (Some OperationalError,
      bolt_db \<lparr> staging_order_items :=
        [\<lparr> s_order_id = SInt 6, s_item = Some ''Nut'', s_quantity = Some 1, s_unit_price = Some 9,
           s_is_valid = True, s_error_message = None, s_customer_id = Some (SText ''C1''),
           s_order_date = Some (2025, 6, 1) \<rparr>] \<rparr>)"
  by code_simp

theorem failed_sync_keeps_production_witness:
  "(\<exists>c'. setup_database {12} test_runtime bolt_db [nut_record ''6''] = Inl (OperationalError, c') \<and>
      orders (durable c') = orders bolt_db \<and> order_items (durable c') = order_items bolt_db) \<and>
   (\<exists>c'. setup_database {} test_runtime bolt_db [nut_record ''6''] = Inr c' \<and>
      working c' = durable c' \<and>
      sync_db test_runtime [nut_record ''6''] bolt_db = Inr (durable c'))"
proof -
  have "fst (outcome (setup_database {12} test_runtime bolt_db [nut_record ''6''])) = Some OperationalError"
    by code_simp
  then have "\<exists>c'. setup_database {12} test_runtime bolt_db [nut_record ''6''] = Inl (OperationalError, c')"
    using outcome_failed[of "setup_database {12} test_runtime bolt_db [nut_record ''6'']" OperationalError]
    by (metis prod.collapse)
  then obtain c1 where
    1: "setup_database {12} test_runtime bolt_db [nut_record ''6''] = Inl (OperationalError, c1)"
    by blast
  have "fst (outcome (setup_database {} test_runtime bolt_db [nut_record ''6''])) = None"
    by code_simp
  then have "\<exists>c'. setup_database {} test_runtime bolt_db [nut_record ''6''] = Inr c'"
    using outcome_ok[of "setup_database {} test_runtime bolt_db [nut_record ''6'']"]
    by (metis prod.collapse)
  then obtain c2 where 2: "setup_database {} test_runtime bolt_db [nut_record ''6''] = Inr c2"
    by blast
  from failed_sync_keeps_production[of "{12}" test_runtime bolt_db "[nut_record ''6'']"] 1
  have a: "orders (durable c1) = orders bolt_db \<and> order_items (durable c1) = order_items bolt_db"
    by blast
  from failed_sync_keeps_production[of "{}" test_runtime bolt_db "[nut_record ''6'']"] 2
  have b: "sync_db test_runtime [nut_record ''6''] bolt_db = Inr (durable c2) \<and> working c2 = durable c2"
    by blast
  from 1 2 a b show ?thesis by blast
qed

text \<open>
  The claim as worded fails for the staging table. The load of step 2 is committed by
  \<^verbatim>\<open>cursor.connection.commit()\<close> before any production table is touched: when order
  \<^verbatim>\<open>A7\<close> is refused in step 3, the two staged rows stay committed.
\<close>

theorem staging_commit_counterexample:
  "outcome (setup_database {} test_runtime bolt_db [nut_record ''6'', nut_record ''A7'']) =
     (Some DatatypeMismatch,
      \<lparr> orders = orders bolt_db, order_items = order_items bolt_db,
        staging_order_items =
          [\<lparr> s_order_id = SInt 6, s_item = Some ''Nut'', s_quantity = Some 1, s_unit_price = Some 9,
             s_is_valid = True, s_error_message = None, s_customer_id = Some (SText ''C1''),
             s_order_date = Some (2025, 6, 1) \<rparr>,
           \<lparr> s_order_id = SText ''A7'', s_item = Some ''Nut'', s_quantity = Some 1,
             s_unit_price = Some 9, s_is_valid = True, s_error_message = None,
             s_customer_id = Some (SText ''C1''), s_order_date = Some (2025, 6, 1) \<rparr>] \<rparr>) \<and>
   staging_order_items bolt_db = []"
  by code_simp

text \<open>
  Claim C1 at a batch whose only row has an empty \<^verbatim>\<open>item\<close>, against a store that holds
  the item Bolt of order 5. The batch stages the key \<^verbatim>\<open>(5, NULL)\<close>;
  \<^verbatim>\<open>(5, 'Bolt') NOT IN (...)\<close> is then NULL, not true, and the row of Bolt, which the
  batch does not have, is still in \<^verbatim>\<open>order_items\<close> after the sync.
\<close>

theorem stale_item_survives_sync:
  "valid_order_rows_flexible test_runtime [csv_row ''C1'' ''5'' '''' ''1'' ''9'' ''2025-06-01''] =
     Inr [\<lparr> customer_id = Some ''C1'', order_id = Some ''5'', item = None, quantity = Some 1,
            unit_price = Some 9, date = Some (2025, 6, 1), is_valid = False,
            error_message = Some ''Invalid or missing item'' \<rparr>] \<and>
   outcome (setup_database {} test_runtime bolt_db
      [\<lparr> customer_id = Some ''C1'', order_id = Some ''5'', item = None, quantity = Some 1,
            unit_price = Some 9, date = Some (2025, 6, 1), is_valid = False,
            error_message = Some ''Invalid or missing item'' \<rparr>]) =
     (None,
      \<lparr> orders = orders bolt_db,
        order_items =
          [\<lparr> i_order_id = SInt 5, i_item = ''Bolt'', i_quantity = Some 2, i_unit_price = Some 3,
             i_is_valid = True, i_error_message = None \<rparr>,
           \<lparr> i_order_id = SInt 5, i_item = ''__BLANK_ITEM__'', i_quantity = Some 1,
             i_unit_price = Some 9, i_is_valid = False,
             i_error_message = Some ''Invalid or missing item'' \<rparr>],
        staging_order_items = [] \<rparr>)"
  by code_simp

section \<open>Upserts as operations on keyed tables\<close>

lemma put_Nil [simp]: "put K n [] = [n]"
  by (simp add: put_def)

lemma put_Cons [simp]:
  "put K n (x # W) = (if K x = K n then n # W else x # put K n W)"
  by (simp add: put_def)

lemma upsert_row_put:
  "(\<And>x. conflicts x \<Longrightarrow> set_cols x = n) \<Longrightarrow> (\<And>x. conflicts x = (K x = K n)) \<Longrightarrow>
     upsert_row conflicts set_cols n W = put K n W"
  by (induction W) auto

lemma keys_put: "K ` set (put K n W) = insert (K n) (K ` set W)"
  by (induction W) auto



lemma put_same: "K n = K m \<Longrightarrow> put K n (put K m W) = put K n W"
  by (induction W) auto

lemma put_swap:
  "K n \<noteq> K m \<Longrightarrow> K n \<in> K ` set W \<Longrightarrow> put K n (put K m W) = put K m (put K n W)"
  by (induction W) auto

lemma keys_fold_put: "K ` set (fold (put K) ns W) = K ` set ns \<union> K ` set W"
  by (induction ns arbitrary: W) (auto simp: keys_put)

lemma fold_put_absorb:
  "K n \<in> K ` set W \<Longrightarrow>
     fold (put K) ns (put K n W) =
       (if K n \<in> K ` set ns then fold (put K) ns W else put K n (fold (put K) ns W))"
proof (induction ns arbitrary: W)
  case Nil
  then show ?case by simp
next
  case (Cons m ns)
  show ?case
  proof (cases "K m = K n")
    case True
    then show ?thesis by (simp add: put_same)
  next
    case False
    have "K n \<in> K ` set (put K m W)" using Cons.prems by (simp add: keys_put)
    moreover have "put K m (put K n W) = put K n (put K m W)"
      using put_swap[of K n m W] False Cons.prems by simp
    ultimately show ?thesis using Cons.IH[of "put K m W"] False by simp
  qed
qed

lemma fold_put_idem: "fold (put K) ns (fold (put K) ns W) = fold (put K) ns W"
proof (induction ns arbitrary: W)
  case Nil
  then show ?case by simp
next
  case (Cons n ns)
  let ?W = "put K n W"
  let ?V = "fold (put K) ns ?W"
  have inW: "K n \<in> K ` set ?W" by (simp add: keys_put)
  have inV: "K n \<in> K ` set ?V" by (simp add: keys_fold_put keys_put)
  have "fold (put K) (n # ns) (fold (put K) (n # ns) W) = fold (put K) ns (put K n ?V)"
    by simp
  also have "\<dots> = (if K n \<in> K ` set ns then fold (put K) ns ?V else put K n (fold (put K) ns ?V))"
    by (rule fold_put_absorb[OF inV])
  also have "\<dots> = (if K n \<in> K ` set ns then ?V else put K n ?V)"
    by (simp add: Cons.IH)
  also have "\<dots> = ?V"
  proof (cases "K n \<in> K ` set ns")
    case True
    then show ?thesis by simp
  next
    case False
    have "fold (put K) ns (put K n ?W) = put K n ?V"
      using fold_put_absorb[OF inW, of ns] False by simp
    then show ?thesis using False by (simp add: put_same)
  qed
  finally show ?case by simp
qed

lemma filter_put:
  "filter (\<lambda>x. P (K x)) (put K n W) =
     (if P (K n) then put K n (filter (\<lambda>x. P (K x)) W) else filter (\<lambda>x. P (K x)) W)"
  by (induction W) auto

lemma filter_fold_put:
  "filter (\<lambda>x. P (K x)) (fold (put K) ns W) =
     fold (put K) (filter (\<lambda>x. P (K x)) ns) (filter (\<lambda>x. P (K x)) W)"
  by (induction ns arbitrary: W) (auto simp: filter_put)

lemma filter_fold_put_idem:
  "filter (\<lambda>x. P (K x)) (fold (put K) ns (filter (\<lambda>x. P (K x)) (fold (put K) ns W))) =
     filter (\<lambda>x. P (K x)) (fold (put K) ns W)"
  by (simp add: filter_fold_put fold_put_idem)

lemma find_put:
  "find (\<lambda>x. K x = k) (put K n W) = (if K n = k then Some n else find (\<lambda>x. K x = k) W)"
  by (induction W) auto

lemma find_append_case:
  "find P (xs @ ys) = (case find P xs of Some x \<Rightarrow> Some x | None \<Rightarrow> find P ys)"
  by (induction xs) auto

lemma find_fold_put:
  "find (\<lambda>x. K x = k) (fold (put K) ns W) =
     (case find (\<lambda>x. K x = k) (rev ns) of Some n \<Rightarrow> Some n | None \<Rightarrow> find (\<lambda>x. K x = k) W)"
proof (induction ns arbitrary: W)
  case Nil
  then show ?case by simp
next
  case (Cons n ns)
  show ?case
    by (simp add: Cons.IH find_put find_append_case split: option.splits)
qed

lemma find_filter_key:
  "find (\<lambda>x. K x = k) (filter (\<lambda>x. P (K x)) W) = (if P k then find (\<lambda>x. K x = k) W else None)"
  by (induction W) auto


section \<open>The tables after a sync\<close>

lemma insert_staging_bound:
  "insert_staging R r d =
     (case bound_row R r of
        Inl e \<Rightarrow> Inl e
      | Inr n \<Rightarrow> Inr (d \<lparr> staging_order_items := put_staging n (staging_order_items d) \<rparr>))"
  by (simp add: insert_staging_def bound_row_def put_staging_def split: sum.splits option.splits)

lemma stage_all_bound:
  "stage_all R rs d =
     (case bound_rows R rs of
        Inl e \<Rightarrow> Inl e
      | Inr ns \<Rightarrow> Inr (d \<lparr> staging_order_items := fold put_staging ns (staging_order_items d) \<rparr>))"
  by (induction rs arbitrary: d) (auto simp: insert_staging_bound split: sum.splits)

lemma upsert_order_item_put:
  "upsert_order_item (s_order_id s) (s_item s) (s_quantity s) (s_unit_price s) (s_is_valid s)
      (s_error_message s) d =
     Inr (d \<lparr> order_items := put item_key (item_of s) (order_items d) \<rparr>)"
proof -
  have "upsert_row (\<lambda>x. i_order_id x = s_order_id s \<and> i_item x = item_or_blank (s_item s))
          (\<lambda>x. x \<lparr> i_quantity := s_quantity s, i_unit_price := s_unit_price s,
                   i_is_valid := s_is_valid s, i_error_message := s_error_message s \<rparr>)
          (item_of s) (order_items d) = put item_key (item_of s) (order_items d)"
    by (rule upsert_row_put) (auto simp: item_of_def item_key_def)
  then show ?thesis by (simp add: upsert_order_item_def item_of_def)
qed

lemma upsert_order_put:
  "upsert_order (s_order_id s) (s_customer_id s) (s_order_date s) d =
     (if is_rowid (s_order_id s)
      then Inr (d \<lparr> orders := put o_order_id (order_of s) (orders d) \<rparr>)
      else Inl DatatypeMismatch)"
proof (cases "s_order_id s")
  case (SInt n)
  have "upsert_row (\<lambda>x. o_order_id x = n)
          (\<lambda>x. x \<lparr> o_customer_id := s_customer_id s, o_order_date := s_order_date s \<rparr>)
          (order_of s) (orders d) = put o_order_id (order_of s) (orders d)"
    by (rule upsert_row_put) (auto simp: order_of_def SInt)
  then show ?thesis using SInt by (simp add: upsert_order_def is_rowid_def order_of_def)
qed (simp_all add: upsert_order_def is_rowid_def)

lemma upsert_all_put:
  "upsert_all S d =
     (if list_all (\<lambda>s. is_rowid (s_order_id s)) S
      then Inr (d \<lparr> orders := fold (put o_order_id) (map order_of S) (orders d),
                   order_items := fold (put item_key) (map item_of S) (order_items d) \<rparr>)
      else Inl DatatypeMismatch)"
proof (induction S arbitrary: d)
  case Nil
  then show ?case by simp
next
  case (Cons s S)
  show ?case
    by (simp add: upsert_order_put upsert_order_item_put Cons.IH)
qed

lemma sync_db_eq:
  "sync_db R batch d =
     (case bound_rows R batch of
        Inl e \<Rightarrow> Inl e
      | Inr ns \<Rightarrow>
          if list_all (\<lambda>s. is_rowid (s_order_id s)) (fold put_staging ns [])
          then Inr \<lparr> orders =
                      synced_orders (fold put_staging ns [])
                        (synced_items (fold put_staging ns []) (order_items d)) (orders d),
                    order_items = synced_items (fold put_staging ns []) (order_items d),
                    staging_order_items = [] \<rparr>
          else Inl DatatypeMismatch)"
  by (cases d)
    (simp add: sync_db_def stage_all_bound upsert_all_put delete_missing_def delete_orphans_def
      clear_staging_def synced_items_def synced_orders_def kept_def[abs_def] split: sum.splits)

lemma synced_items_idem: "synced_items S (synced_items S items) = synced_items S items"
proof -
  have k: "kept S = (\<lambda>x. (\<lambda>(a, b). sql_not (key_in_staging a b S) \<noteq> TT) (item_key x))"
    by (simp add: kept_def item_key_def fun_eq_iff)
  show ?thesis unfolding synced_items_def k by (rule filter_fold_put_idem)
qed

lemma synced_orders_idem:
  "synced_orders S items (synced_orders S items os) = synced_orders S items os"
  unfolding synced_orders_def
  by (rule filter_fold_put_idem[of "\<lambda>n. SInt n \<in> set (map i_order_id items)" o_order_id])

lemma sync_db_idem: "sync_db R batch d = Inr d' \<Longrightarrow> sync_db R batch d' = Inr d'"
  by (auto simp: sync_db_eq synced_items_idem synced_orders_idem split: sum.splits if_splits)

lemma sync_db_success_independent:
  "sync_db R batch d1 = Inr x \<Longrightarrow> \<exists>y. sync_db R batch d2 = Inr y"
  by (auto simp: sync_db_eq split: sum.splits if_splits)

lemma sync_twice_production:
  "production (snd (outcome (setup_database {} R
       (snd (outcome (setup_database {} R d batch))) batch))) =
   production (snd (outcome (setup_database {} R d batch)))"
proof (cases "setup_database {} R d batch")
  case (Inr c1)
  then have "sync_db R batch d = Inr (durable c1)" using setup_database_Inr by blast
  then have "sync_db R batch (durable c1) = Inr (durable c1)" by (rule sync_db_idem)
  from setup_database_total[OF this] obtain c2 where
    "setup_database {} R (durable c1) batch = Inr c2" "durable c2 = durable c1" by blast
  with Inr show ?thesis by (simp add: outcome_def)
next
  case (Inl a)
  obtain e c1 where a: "a = (e, c1)" by (cases a)
  with Inl have 1: "setup_database {} R d batch = Inl (e, c1)" by simp
  from setup_database_Inl[OF 1] have p1: "production (durable c1) = production d" .
  show ?thesis
  proof (cases "setup_database {} R (durable c1) batch")
    case (Inl b)
    obtain e2 c2 where b: "b = (e2, c2)" by (cases b)
    with Inl have "setup_database {} R (durable c1) batch = Inl (e2, c2)" by simp
    from setup_database_Inl[OF this] b Inl 1 show ?thesis by (simp add: outcome_def)
  next
    case (Inr c2)
    then have "sync_db R batch (durable c1) = Inr (durable c2)" using setup_database_Inr by blast
    from sync_db_success_independent[OF this, of d] obtain y where "sync_db R batch d = Inr y"
      by blast
    from setup_database_total[OF this] 1 show ?thesis by auto
  qed
qed

text \<open>
  Claim C6. When a sync of batch \<open>B\<close> has returned, a second sync of the same batch on the
  store it left returns as well (with no storage failure) and leaves the same store:
  the same \<^verbatim>\<open>orders\<close>, \<^verbatim>\<open>order_items\<close> and (empty) staging table, rows in the same order.
  And whether the first sync returns or raises, with no storage failure a second one
  leaves \<^verbatim>\<open>orders\<close> and \<^verbatim>\<open>order_items\<close> as the first left them.
\<close>

theorem sync_twice_same_store:
  "(setup_database F R d batch = Inr c1 \<longrightarrow>
     (\<exists>c2. setup_database {} R (durable c1) batch = Inr c2 \<and> durable c2 = durable c1) \<and>
     (\<forall>F2 c2. setup_database F2 R (durable c1) batch = Inr c2 \<longrightarrow> durable c2 = durable c1)) \<and>
   production (snd (outcome (setup_database {} R
       (snd (outcome (setup_database {} R d batch))) batch))) =
     production (snd (outcome (setup_database {} R d batch)))"
proof (intro conjI impI)
  assume "setup_database F R d batch = Inr c1"
  then have "sync_db R batch d = Inr (durable c1)" using setup_database_Inr by blast
  then have again: "sync_db R batch (durable c1) = Inr (durable c1)" by (rule sync_db_idem)
  from setup_database_total[OF again]
  show "\<exists>c2. setup_database {} R (durable c1) batch = Inr c2 \<and> durable c2 = durable c1" .
  show "\<forall>F2 c2. setup_database F2 R (durable c1) batch = Inr c2 \<longrightarrow> durable c2 = durable c1"
    using setup_database_Inr again by fastforce
next
  show "production (snd (outcome (setup_database {} R
       (snd (outcome (setup_database {} R d batch))) batch))) =
     production (snd (outcome (setup_database {} R d batch)))"
    by (rule sync_twice_production)
qed

theorem sync_twice_same_store_witness:
  "outcome (setup_database {} test_runtime bolt_db [nut_record ''6'']) = (None, nut_db) \<and>
   (\<exists>c2. setup_database {} test_runtime nut_db [nut_record ''6''] = Inr c2 \<and> durable c2 = nut_db)"
proof -
  have run: "outcome (setup_database {} test_runtime bolt_db [nut_record ''6'']) = (None, nut_db)"
    by code_simp
  from outcome_ok[OF run] obtain c1 where
    c1: "setup_database {} test_runtime bolt_db [nut_record ''6''] = Inr c1" "durable c1 = nut_db"
    by blast
  from sync_twice_same_store[of "{}" test_runtime bolt_db "[nut_record ''6'']" c1] c1 run
  show ?thesis by simp
qed

section \<open>The staging table: the last row of a key wins\<close>

lemma put_staging_Nil [simp]: "put_staging m [] = [m]"
  by (simp add: put_staging_def)

lemma staging_set_conflict: "staging_conflict m x \<Longrightarrow> staging_set m x = m"
  by (cases x, cases m) (simp add: staging_conflict_def staging_set_def)

lemma put_staging_Cons [simp]:
  "put_staging m (x # S) = (if staging_conflict m x then m # S else x # put_staging m S)"
  by (simp add: put_staging_def staging_set_conflict)

lemma staging_conflict_skey:
  "staging_conflict m x = (skey x = skey m \<and> s_item m \<noteq> None)"
  by (auto simp: staging_conflict_def skey_def)

lemma item_key_item_of: "item_key (item_of s) = (s_order_id s, item_or_blank (s_item s))"
  by (simp add: item_key_def item_of_def)

lemma skey_item_key: "skey x = skey m \<Longrightarrow> item_key (item_of x) = item_key (item_of m)"
  by (simp add: skey_def item_key_item_of)

lemma set_put_staging: "set (put_staging m S) \<subseteq> insert m (set S)"
  by (induction S) auto

lemma in_put_staging: "m \<in> set (put_staging m S)"
  by (induction S) auto

lemma skeys_put_staging: "skey ` set (put_staging m S) = insert (skey m) (skey ` set S)"
  by (induction S) (auto simp: staging_conflict_skey)

lemma skeys_fold_put_staging:
  "skey ` set (fold put_staging ns S) = skey ` set ns \<union> skey ` set S"
  by (induction ns arbitrary: S) (auto simp: skeys_put_staging)

lemma put_staging_null: "s_item m = None \<Longrightarrow> put_staging m S = S @ [m]"
  by (induction S) (auto simp: staging_conflict_skey)

lemma filter_put_staging_other:
  "item_key (item_of m) \<noteq> k \<Longrightarrow>
     filter (\<lambda>s. item_key (item_of s) = k) (put_staging m S) =
     filter (\<lambda>s. item_key (item_of s) = k) S"
  by (induction S) (auto simp: staging_conflict_skey dest: skey_item_key)

lemma filter_fold_put_staging_other:
  "\<forall>m\<in>set ns. item_key (item_of m) \<noteq> k \<Longrightarrow>
     filter (\<lambda>s. item_key (item_of s) = k) (fold put_staging ns S) =
     filter (\<lambda>s. item_key (item_of s) = k) S"
  by (induction ns arbitrary: S) (auto simp: filter_put_staging_other)

lemma filter_put_staging_same:
  "item_key (item_of m) = k \<Longrightarrow>
   \<forall>x\<in>set S. item_key (item_of x) = k \<longrightarrow> skey x = skey m \<and> s_item m \<noteq> None \<Longrightarrow>
   length (filter (\<lambda>s. item_key (item_of s) = k) S) \<le> 1 \<Longrightarrow>
     filter (\<lambda>s. item_key (item_of s) = k) (put_staging m S) = [m]"
proof (induction S)
  case Nil
  then show ?case by simp
next
  case (Cons x S)
  show ?case
  proof (cases "staging_conflict m x")
    case True
    then have "item_key (item_of x) = k"
      using Cons.prems(1) by (auto simp: staging_conflict_skey dest: skey_item_key)
    with Cons.prems(3) have "filter (\<lambda>s. item_key (item_of s) = k) S = []" by simp
    with True Cons.prems(1) show ?thesis by simp
  next
    case False
    then have nk: "item_key (item_of x) \<noteq> k"
      using Cons.prems(2) by (auto simp: staging_conflict_skey)
    with Cons.prems have "filter (\<lambda>s. item_key (item_of s) = k) (put_staging m S) = [m]"
      by (intro Cons.IH) auto
    with False nk show ?thesis by simp
  qed
qed

text \<open>The invariant while the rows before the last one are staged.\<close>

lemma staging_invariant_step:
  assumes inv: "\<forall>x\<in>set S. item_key (item_of x) = k \<longrightarrow> skey x = kk \<and> snd kk \<noteq> None"
    and len: "length (filter (\<lambda>s. item_key (item_of s) = k) S) \<le> 1"
    and m: "item_key (item_of m) = k \<longrightarrow> skey m = kk \<and> snd kk \<noteq> None"
  shows "(\<forall>x\<in>set (put_staging m S). item_key (item_of x) = k \<longrightarrow> skey x = kk \<and> snd kk \<noteq> None) \<and>
         length (filter (\<lambda>s. item_key (item_of s) = k) (put_staging m S)) \<le> 1"
proof (cases "item_key (item_of m) = k")
  case True
  with m have mk: "skey m = kk" "snd kk \<noteq> None" by simp_all
  then have "s_item m \<noteq> None" by (auto simp: skey_def)
  with inv mk have "\<forall>x\<in>set S. item_key (item_of x) = k \<longrightarrow> skey x = skey m \<and> s_item m \<noteq> None"
    by simp
  from filter_put_staging_same[OF True this len]
  have "filter (\<lambda>s. item_key (item_of s) = k) (put_staging m S) = [m]" .
  moreover have "\<forall>x\<in>set (put_staging m S). item_key (item_of x) = k \<longrightarrow> skey x = kk \<and> snd kk \<noteq> None"
    using set_put_staging[of m S] inv mk by auto
  ultimately show ?thesis by simp
next
  case False
  from filter_put_staging_other[OF False, of S] len
  have "length (filter (\<lambda>s. item_key (item_of s) = k) (put_staging m S)) \<le> 1" by simp
  moreover have "\<forall>x\<in>set (put_staging m S). item_key (item_of x) = k \<longrightarrow> skey x = kk \<and> snd kk \<noteq> None"
    using set_put_staging[of m S] inv False by auto
  ultimately show ?thesis by simp
qed

lemma staging_invariant_fold:
  "\<forall>x\<in>set S. item_key (item_of x) = k \<longrightarrow> skey x = kk \<and> snd kk \<noteq> None \<Longrightarrow>
   length (filter (\<lambda>s. item_key (item_of s) = k) S) \<le> 1 \<Longrightarrow>
   \<forall>m\<in>set ns. item_key (item_of m) = k \<longrightarrow> skey m = kk \<and> snd kk \<noteq> None \<Longrightarrow>
     (\<forall>x\<in>set (fold put_staging ns S). item_key (item_of x) = k \<longrightarrow> skey x = kk \<and> snd kk \<noteq> None) \<and>
     length (filter (\<lambda>s. item_key (item_of s) = k) (fold put_staging ns S)) \<le> 1"
proof (induction ns arbitrary: S)
  case Nil
  then show ?case by simp
next
  case (Cons m ns)
  have m: "item_key (item_of m) = k \<longrightarrow> skey m = kk \<and> snd kk \<noteq> None"
    and ns: "\<forall>m\<in>set ns. item_key (item_of m) = k \<longrightarrow> skey m = kk \<and> snd kk \<noteq> None"
    using Cons.prems(3) by simp_all
  from staging_invariant_step[OF Cons.prems(1,2) m]
  have a: "\<forall>x\<in>set (put_staging m S). item_key (item_of x) = k \<longrightarrow> skey x = kk \<and> snd kk \<noteq> None"
    and b: "length (filter (\<lambda>s. item_key (item_of s) = k) (put_staging m S)) \<le> 1"
    by blast+
  from Cons.IH[OF a b ns] show ?case by simp
qed

lemma last_staged_row_wins:
  assumes post: "\<forall>m\<in>set post. item_key (item_of m) \<noteq> item_key (item_of n)"
    and pre: "\<forall>m\<in>set pre. item_key (item_of m) = item_key (item_of n) \<longrightarrow>
                skey m = skey n \<and> s_item n \<noteq> None"
  shows "filter (\<lambda>s. item_key (item_of s) = item_key (item_of n))
           (fold put_staging (pre @ n # post) []) = [n]"
proof -
  let ?k = "item_key (item_of n)"
  let ?S = "fold put_staging pre []"
  have pre': "\<forall>m\<in>set pre. item_key (item_of m) = ?k \<longrightarrow> skey m = skey n \<and> snd (skey n) \<noteq> None"
    using pre by (simp add: skey_def)
  from staging_invariant_fold[of "[]" ?k "skey n" pre] pre'
  have inv: "\<forall>x\<in>set ?S. item_key (item_of x) = ?k \<longrightarrow> skey x = skey n \<and> snd (skey n) \<noteq> None"
    and len: "length (filter (\<lambda>s. item_key (item_of s) = ?k) ?S) \<le> 1"
    by simp_all
  have one: "filter (\<lambda>s. item_key (item_of s) = ?k) (put_staging n ?S) = [n]"
  proof (cases "s_item n")
    case None
    with inv have "filter (\<lambda>s. item_key (item_of s) = ?k) ?S = []"
      by (auto simp: filter_empty_conv skey_def)
    with None show ?thesis by (simp add: put_staging_null)
  next
    case (Some t)
    with inv have "\<forall>x\<in>set ?S. item_key (item_of x) = ?k \<longrightarrow> skey x = skey n \<and> s_item n \<noteq> None"
      by simp
    from filter_put_staging_same[OF refl this len] show ?thesis .
  qed
  have "fold put_staging (pre @ n # post) [] = fold put_staging post (put_staging n ?S)"
    by simp
  with filter_fold_put_staging_other[OF post, of "put_staging n ?S"] one show ?thesis by simp
qed

section \<open>What a sync leaves in the production tables\<close>

lemma key_in_staging_FF:
  "(key_in_staging a b S = FF) =
     (\<forall>s\<in>set S. s_order_id s \<noteq> a \<or> (\<exists>t. s_item s = Some t \<and> t \<noteq> b))"
proof (induction S)
  case Nil
  then show ?case by (simp add: key_in_staging_def)
next
  case (Cons s S)
  have or_FF: "\<And>u v. (sql_or u v = FF) = (u = FF \<and> v = FF)"
    by (rule sql_or.elims[of _ _ FF, THEN iffI]) (auto elim: sql_or.elims)
  have one: "(sql_and (sql_eq (Some a) (Some (s_order_id s))) (sql_eq (Some b) (s_item s)) = FF) =
      (s_order_id s \<noteq> a \<or> (\<exists>t. s_item s = Some t \<and> t \<noteq> b))"
    by (cases "s_item s") (auto simp: sql_eq_def)
  from Cons.IH show ?case
    by (simp add: key_in_staging_def or_FF one)
qed

lemma kept_iff:
  "kept S x = (\<exists>s\<in>set S. s_order_id s = i_order_id x \<and> (s_item s = None \<or> s_item s = Some (i_item x)))"
proof -
  have "kept S x = (key_in_staging (i_order_id x) (i_item x) S \<noteq> FF)"
    unfolding kept_def by (cases "key_in_staging (i_order_id x) (i_item x) S") simp_all
  also have "\<dots> = (\<exists>s\<in>set S. \<not> (s_order_id s \<noteq> i_order_id x \<or> (\<exists>t. s_item s = Some t \<and> t \<noteq> i_item x)))"
    by (simp add: key_in_staging_FF)
  also have "\<dots> = (\<exists>s\<in>set S. s_order_id s = i_order_id x \<and> (s_item s = None \<or> s_item s = Some (i_item x)))"
  proof (rule bex_cong[OF refl])
    fix s
    show "(\<not> (s_order_id s \<noteq> i_order_id x \<or> (\<exists>t. s_item s = Some t \<and> t \<noteq> i_item x))) =
          (s_order_id s = i_order_id x \<and> (s_item s = None \<or> s_item s = Some (i_item x)))"
      by (cases "s_item s") auto
  qed
  finally show ?thesis .
qed

lemma kept_key: "kept S = (\<lambda>x. (\<lambda>(a, b). \<exists>s\<in>set S. s_order_id s = a \<and> (s_item s = None \<or> s_item s = Some b)) (item_key x))"
  by (simp add: fun_eq_iff kept_iff item_key_def)

lemma item_or_blank_Some: "t \<noteq> [] \<Longrightarrow> item_or_blank (Some t) = t"
  by (simp add: item_or_blank_def)

lemma kept_staged_key:
  assumes "s \<in> set S" and "s_item s \<noteq> Some []" and "item_key x = item_key (item_of s)"
  shows "kept S x"
proof -
  from assms(3) have x: "i_order_id x = s_order_id s" "i_item x = item_or_blank (s_item s)"
    by (simp_all add: item_key_def item_of_def)
  have "s_item s = None \<or> s_item s = Some (i_item x)"
    using assms(2) x(2) by (cases "s_item s") (auto simp: item_or_blank_Some)
  with assms(1) x(1) show ?thesis unfolding kept_iff by auto
qed

lemma find_rev_single: "filter P xs = [y] \<Longrightarrow> find P (rev xs) = Some y"
proof (induction xs)
  case Nil
  then show ?case by simp
next
  case (Cons x xs)
  show ?case
  proof (cases "P x")
    case True
    with Cons.prems have "y = x" and "filter P xs = []" by simp_all
    then have "find P (rev xs) = None" by (auto simp: find_None_iff filter_empty_conv)
    with True \<open>y = x\<close> show ?thesis by (simp add: find_append_case)
  next
    case False
    with Cons show ?thesis by (simp add: find_append_case)
  qed
qed

lemma find_synced_items:
  assumes one: "filter (\<lambda>s. item_key (item_of s) = k) S = [n]" and item: "s_item n \<noteq> Some []"
  shows "find (\<lambda>x. item_key x = k) (synced_items S items) = Some (item_of n)"
proof -
  have n: "n \<in> set S" and nk: "item_key (item_of n) = k"
  proof -
    have "n \<in> set (filter (\<lambda>s. item_key (item_of s) = k) S)" using one by simp
    then show "n \<in> set S" "item_key (item_of n) = k" by simp_all
  qed
  have "filter (\<lambda>x. item_key x = k) (map item_of S) = [item_of n]"
    using one by (simp add: filter_map comp_def)
  then have "find (\<lambda>x. item_key x = k) (rev (map item_of S)) = Some (item_of n)"
    by (rule find_rev_single)
  then have f: "find (\<lambda>x. item_key x = k) (fold (put item_key) (map item_of S) items) = Some (item_of n)"
    by (simp add: find_fold_put)
  have "kept S (item_of n)" using kept_staged_key[OF n item] by simp
  then have "(\<lambda>(a, b). \<exists>s\<in>set S. s_order_id s = a \<and> (s_item s = None \<or> s_item s = Some b)) k"
    using nk by (simp add: kept_key)
  then show ?thesis
    unfolding synced_items_def kept_key by (simp add: find_filter_key f)
qed



lemma staged_key_present:
  assumes "s \<in> set S" and "s_item s \<noteq> Some []"
  shows "\<exists>x\<in>set (synced_items S items). item_key x = item_key (item_of s)"
proof -
  have "item_key (item_of s) \<in> item_key ` set (fold (put item_key) (map item_of S) items)"
    using assms(1) by (auto simp: keys_fold_put)
  then obtain x where x: "x \<in> set (fold (put item_key) (map item_of S) items)"
    and k: "item_key x = item_key (item_of s)" by auto
  from kept_staged_key[OF assms k] x k show ?thesis by (auto simp: synced_items_def)
qed

subsection \<open>Records and the rows they stage\<close>

lemma bound_row_fields:
  assumes "bound_row R r = Inr n"
  shows "\<exists>t. order_id r = Some t \<and> s_order_id n = sql_affinity R t"
    and "s_item n = item r" and "s_quantity n = quantity r"
    and "s_unit_price n = Option.bind (unit_price r) (sql_real R)"
    and "s_is_valid n = is_valid r" and "s_error_message n = error_message r"
    and "record_key R r = Some (item_key (item_of n))"
    and "skey n = (s_order_id n, item r)"
  using assms
  by (auto simp: bound_row_def bind_int_def staged_def record_key_def item_key_item_of skey_def
      split: sum.splits option.splits if_splits)

lemma bound_rows_append:
  "bound_rows R (xs @ ys) =
     (case bound_rows R xs of
        Inl e \<Rightarrow> Inl e
      | Inr ms \<Rightarrow> (case bound_rows R ys of Inl e \<Rightarrow> Inl e | Inr ns \<Rightarrow> Inr (ms @ ns)))"
  by (induction xs) (auto split: sum.splits)

lemma bound_rows_member:
  "bound_rows R rs = Inr ns \<Longrightarrow> m \<in> set ns \<Longrightarrow> \<exists>r\<in>set rs. bound_row R r = Inr m"
  by (induction rs arbitrary: ns) (auto split: sum.splits)

lemma bound_rows_member':
  "bound_rows R rs = Inr ns \<Longrightarrow> r \<in> set rs \<Longrightarrow> \<exists>m\<in>set ns. bound_row R r = Inr m"
  by (induction rs arbitrary: ns) (auto split: sum.splits)

lemma bound_rows_split:
  assumes "bound_rows R (pre @ r # post) = Inr ns"
  shows "\<exists>pre' n post'. ns = pre' @ n # post' \<and> bound_rows R pre = Inr pre' \<and>
           bound_row R r = Inr n \<and> bound_rows R post = Inr post'"
  using assms by (auto simp: bound_rows_append split: sum.splits)

lemma bound_rows_total:
  "\<forall>r\<in>set rs. \<exists>n. bound_row R r = Inr n \<Longrightarrow> \<exists>ns. bound_rows R rs = Inr ns"
  by (induction rs) auto

lemma set_fold_put_staging: "set (fold put_staging ns S) \<subseteq> set ns \<union> set S"
proof (induction ns arbitrary: S)
  case Nil
  then show ?case by simp
next
  case (Cons m ns)
  from Cons.IH[of "put_staging m S"] set_put_staging[of m S] show ?case by auto
qed

lemma storable_bound_row:
  "storable R r \<Longrightarrow> \<exists>n. bound_row R r = Inr n \<and> is_rowid (s_order_id n)"
  by (auto simp: storable_def bound_row_def bind_int_def staged_def split: option.splits)

lemma sync_db_total:
  assumes "\<forall>r\<in>set batch. storable R r"
  shows "\<exists>d'. sync_db R batch d = Inr d'"
proof -
  from assms have "\<forall>r\<in>set batch. \<exists>n. bound_row R r = Inr n"
    using storable_bound_row by blast
  from bound_rows_total[OF this] obtain ns where ns: "bound_rows R batch = Inr ns" by blast
  have "\<forall>m\<in>set ns. is_rowid (s_order_id m)"
  proof
    fix m assume "m \<in> set ns"
    from bound_rows_member[OF ns this] obtain r where "r \<in> set batch" "bound_row R r = Inr m"
      by blast
    with assms storable_bound_row[of R r] show "is_rowid (s_order_id m)" by auto
  qed
  with set_fold_put_staging[of ns "[]"]
  have "list_all (\<lambda>s. is_rowid (s_order_id s)) (fold put_staging ns [])"
    by (auto simp: list_all_iff)
  with ns show ?thesis by (simp add: sync_db_eq)
qed

lemma sync_db_items:
  assumes "sync_db R batch d = Inr d'"
  shows "\<exists>ns. bound_rows R batch = Inr ns \<and>
           list_all (\<lambda>s. is_rowid (s_order_id s)) (fold put_staging ns []) \<and>
           order_items d' = synced_items (fold put_staging ns []) (order_items d)"
  using assms by (auto simp: sync_db_eq split: sum.splits if_splits)

lemma last_record_wins:
  assumes sync: "sync_db R (pre @ r # post) d = Inr d'"
    and post: "\<forall>r'\<in>set post. record_key R r' \<noteq> record_key R r"
    and pre: "\<forall>r'\<in>set pre. record_key R r' = record_key R r \<longrightarrow> item r' = item r \<and> item r \<noteq> None"
    and item: "item r \<noteq> Some []"
  shows "\<exists>n. bound_row R r = Inr n \<and> is_rowid (s_order_id n) \<and>
           find (\<lambda>x. Some (item_key x) = record_key R r) (order_items d') = Some (item_of n)"
proof -
  from sync_db_items[OF sync] obtain ns where
    ns: "bound_rows R (pre @ r # post) = Inr ns" and
    ids: "list_all (\<lambda>s. is_rowid (s_order_id s)) (fold put_staging ns [])" and
    items: "order_items d' = synced_items (fold put_staging ns []) (order_items d)"
    by blast
  from bound_rows_split[OF ns] obtain pre' n post' where
    split: "ns = pre' @ n # post'" and bpre: "bound_rows R pre = Inr pre'" and
    bn: "bound_row R r = Inr n" and bpost: "bound_rows R post = Inr post'"
    by blast
  note n = bound_row_fields[OF bn]
  let ?k = "item_key (item_of n)"
  have p1: "\<forall>m\<in>set post'. item_key (item_of m) \<noteq> ?k"
  proof
    fix m assume "m \<in> set post'"
    from bound_rows_member[OF bpost this] obtain r' where r': "r' \<in> set post" "bound_row R r' = Inr m"
      by blast
    from post r'(1) bound_row_fields(7)[OF r'(2)] n(7) show "item_key (item_of m) \<noteq> ?k" by auto
  qed
  have p2: "\<forall>m\<in>set pre'. item_key (item_of m) = ?k \<longrightarrow> skey m = skey n \<and> s_item n \<noteq> None"
  proof (intro ballI impI)
    fix m assume m: "m \<in> set pre'" and k: "item_key (item_of m) = ?k"
    from bound_rows_member[OF bpre m] obtain r' where r': "r' \<in> set pre" "bound_row R r' = Inr m"
      by blast
    from bound_row_fields(7)[OF r'(2)] n(7) k have "record_key R r' = record_key R r" by simp
    with pre r'(1) have "item r' = item r" "item r \<noteq> None" by auto
    moreover have "s_order_id m = s_order_id n" using k by (simp add: item_key_item_of)
    ultimately show "skey m = skey n \<and> s_item n \<noteq> None"
      using bound_row_fields(8)[OF r'(2)] n(8) n(2) by simp
  qed
  from last_staged_row_wins[OF p1 p2]
  have one: "filter (\<lambda>s. item_key (item_of s) = ?k) (fold put_staging ns []) = [n]"
    by (simp add: split)
  then have "n \<in> set (filter (\<lambda>s. item_key (item_of s) = ?k) (fold put_staging ns []))" by simp
  then have "n \<in> set (fold put_staging ns [])" by simp
  with ids have rid: "is_rowid (s_order_id n)" by (simp add: list_all_iff)
  have "s_item n \<noteq> Some []" using item n(2) by simp
  from find_synced_items[OF one this, of "order_items d"] items
  have "find (\<lambda>x. item_key x = ?k) (order_items d') = Some (item_of n)" by simp
  moreover have "(\<lambda>x. Some (item_key x) = record_key R r) = (\<lambda>x. item_key x = ?k)"
    using n(7) by auto
  ultimately show ?thesis using bn rid by auto
qed

lemma record_key_present:
  assumes sync: "sync_db R batch d = Inr d'" and r: "r \<in> set batch" and item: "item r \<noteq> Some []"
  shows "\<exists>x\<in>set (order_items d'). Some (item_key x) = record_key R r"
proof -
  from sync_db_items[OF sync] obtain ns where
    ns: "bound_rows R batch = Inr ns" and
    items: "order_items d' = synced_items (fold put_staging ns []) (order_items d)"
    by blast
  from bound_rows_member'[OF ns r] obtain n where n: "n \<in> set ns" "bound_row R r = Inr n" by blast
  have "skey n \<in> skey ` set (fold put_staging ns [])"
    using n(1) by (simp add: skeys_fold_put_staging)
  then obtain s where s: "s \<in> set (fold put_staging ns [])" "skey s = skey n" by auto
  then have "s_item s \<noteq> Some []"
    using item bound_row_fields(2)[OF n(2)] by (simp add: skey_def)
  from staged_key_present[OF s(1) this, of "order_items d"] items skey_item_key[OF s(2)]
    bound_row_fields(7)[OF n(2)]
  show ?thesis by auto
qed

text \<open>
  The records that have an \<^verbatim>\<open>order_id\<close> are stored. When every record of the batch has
  an \<^verbatim>\<open>order_id\<close> that SQLite stores as an integer (and quantities of 64 bits, and items
  that are absent or not empty, as the validator yields them), the sync returns, whatever
  other fields are missing. Every record's key is then in \<^verbatim>\<open>order_items\<close>, and a record
  that is the only one of the batch with its key is stored with its own \<^verbatim>\<open>quantity\<close>,
  \<^verbatim>\<open>unit_price\<close>, \<^verbatim>\<open>is_valid\<close> and \<^verbatim>\<open>error_message\<close>: an invalid record is stored as
  invalid.
\<close>

lemma records_with_order_id_are_synced:
  assumes ok: "\<forall>r\<in>set batch. storable R r \<and> item r \<noteq> Some []"
  shows "\<exists>c'. setup_database {} R d batch = Inr c' \<and>
     (\<forall>r\<in>set batch. \<exists>x\<in>set (order_items (durable c')). Some (item_key x) = record_key R r) \<and>
     (\<forall>pre r post.
        batch = pre @ r # post \<and> (\<forall>r'\<in>set pre \<union> set post. record_key R r' \<noteq> record_key R r) \<longrightarrow>
        (\<exists>x. find (\<lambda>x. Some (item_key x) = record_key R r) (order_items (durable c')) = Some x \<and>
             i_quantity x = quantity r \<and>
             i_unit_price x = Option.bind (unit_price r) (sql_real R) \<and>
             i_is_valid x = is_valid r \<and> i_error_message x = error_message r))"
proof -
  from ok sync_db_total[of batch R d] obtain d' where sync: "sync_db R batch d = Inr d'" by blast
  from setup_database_total[OF sync] obtain c' where
    c': "setup_database {} R d batch = Inr c'" "durable c' = d'" by blast
  have a: "\<forall>r\<in>set batch. \<exists>x\<in>set (order_items d'). Some (item_key x) = record_key R r"
    using record_key_present[OF sync] ok by blast
  have b: "\<forall>pre r post.
        batch = pre @ r # post \<and> (\<forall>r'\<in>set pre \<union> set post. record_key R r' \<noteq> record_key R r) \<longrightarrow>
        (\<exists>x. find (\<lambda>x. Some (item_key x) = record_key R r) (order_items d') = Some x \<and>
             i_quantity x = quantity r \<and>
             i_unit_price x = Option.bind (unit_price r) (sql_real R) \<and>
             i_is_valid x = is_valid r \<and> i_error_message x = error_message r)"
  proof (intro allI impI)
    fix pre r post
    assume h: "batch = pre @ r # post \<and> (\<forall>r'\<in>set pre \<union> set post. record_key R r' \<noteq> record_key R r)"
    then have s: "sync_db R (pre @ r # post) d = Inr d'" using sync by simp
    have "item r \<noteq> Some []" using ok h by simp
    from last_record_wins[OF s _ _ this] h obtain n where
      n: "bound_row R r = Inr n"
      "find (\<lambda>x. Some (item_key x) = record_key R r) (order_items d') = Some (item_of n)"
      by auto
    from bound_row_fields[OF n(1)] n(2)
    show "\<exists>x. find (\<lambda>x. Some (item_key x) = record_key R r) (order_items d') = Some x \<and>
             i_quantity x = quantity r \<and>
             i_unit_price x = Option.bind (unit_price r) (sql_real R) \<and>
             i_is_valid x = is_valid r \<and> i_error_message x = error_message r"
      by (simp add: item_of_def)
  qed
  from c' a b show ?thesis by blast
qed






lemma records_with_order_id_are_synced_example:
  "\<exists>c'. setup_database {} test_runtime bolt_db [blank_record] = Inr c' \<and>
     (\<exists>x. find (\<lambda>x. item_key x = (SInt 5, ''__BLANK_ITEM__'')) (order_items (durable c')) = Some x \<and>
          i_quantity x = Some 1 \<and> i_unit_price x = Some 9 \<and> \<not> i_is_valid x \<and>
          i_error_message x = Some ''Invalid or missing item'')"
proof -
  have ok: "\<forall>r\<in>set [blank_record]. storable test_runtime r \<and> item r \<noteq> Some []"
    by (simp add: blank_record_def storable_def is_rowid_def test_runtime_def test_affinity_def
        test_int_def digit_of_def)
  have key: "record_key test_runtime blank_record = Some (SInt 5, ''__BLANK_ITEM__'')"
    by code_simp
  have f: "quantity blank_record = Some 1" "Option.bind (unit_price blank_record) (sql_real test_runtime) = Some 9"
    "is_valid blank_record = False" "error_message blank_record = Some ''Invalid or missing item''"
    by (simp_all add: blank_record_def test_runtime_def)
  from records_with_order_id_are_synced[OF ok, of bolt_db] obtain c' where
    c': "setup_database {} test_runtime bolt_db [blank_record] = Inr c'" and
    l: "\<forall>pre r post.
        [blank_record] = pre @ r # post \<and>
        (\<forall>r'\<in>set pre \<union> set post. record_key test_runtime r' \<noteq> record_key test_runtime r) \<longrightarrow>
        (\<exists>x. find (\<lambda>x. Some (item_key x) = record_key test_runtime r) (order_items (durable c')) = Some x \<and>
             i_quantity x = quantity r \<and>
             i_unit_price x = Option.bind (unit_price r) (sql_real test_runtime) \<and>
             i_is_valid x = is_valid r \<and> i_error_message x = error_message r)"
    by blast
  from l[rule_format, of "[]" blank_record "[]"] key f
  have "\<exists>x. find (\<lambda>x. item_key x = (SInt 5, ''__BLANK_ITEM__'')) (order_items (durable c')) = Some x \<and>
          i_quantity x = Some 1 \<and> i_unit_price x = Some 9 \<and> \<not> i_is_valid x \<and>
          i_error_message x = Some ''Invalid or missing item''"
    by simp
  with c' show ?thesis by blast
qed

text \<open>
  Claim C5 at a record without \<^verbatim>\<open>order_id\<close>. The validator yields such a record for
  review, marked invalid, and step 2 binds its missing \<^verbatim>\<open>order_id\<close> as NULL. The column
  \<^verbatim>\<open>staging_order_items.order_id\<close> is \<^verbatim>\<open>NOT NULL\<close>, so the \<^verbatim>\<open>INSERT\<close> raises: no sync of
  a batch that holds such a record returns, and \<^verbatim>\<open>orders\<close> and \<^verbatim>\<open>order_items\<close> are left
  as they were, so that no record of the batch is stored, the valid ones included.
\<close>

theorem missing_order_id_aborts_sync:
  assumes r: "r \<in> set batch" and oid: "order_id r = None"
  shows "\<exists>e c. setup_database F R d batch = Inl (e, c) \<and>
           orders (durable c) = orders d \<and> order_items (durable c) = order_items d"
proof (cases "setup_database F R d batch")
  case (Inl x)
  obtain e c where x: "x = (e, c)" by (cases x)
  from setup_database_Inl[of F R d batch e c] Inl x
  have "production (durable c) = production d" by simp
  then have "orders (durable c) = orders d \<and> order_items (durable c) = order_items d"
    by (simp add: production_def)
  with Inl x show ?thesis by blast
next
  case (Inr c')
  then have "sync_db R batch d = Inr (durable c')" using setup_database_Inr by blast
  from sync_db_items[OF this] obtain ns where "bound_rows R batch = Inr ns" by blast
  from bound_rows_member'[OF this r] obtain m where "bound_row R r = Inr m" by blast
  from bound_row_fields(1)[OF this] oid show ?thesis by simp
qed

theorem missing_order_id_aborts_sync_witness:
  "valid_order_rows_flexible test_runtime
      [csv_row ''C1'' ''6'' ''Nut'' ''1'' ''9'' ''2025-06-01'',
       csv_row ''C1'' '''' ''Bolt'' ''2'' ''3'' ''2025-06-01''] =
     Inr [nut_record ''6'',
          \<lparr> customer_id = Some ''C1'', order_id = None, item = Some ''Bolt'', quantity = Some 2,
            unit_price = Some 3, date = Some (2025, 6, 1), is_valid = False,
            error_message = Some ''Invalid or missing order_id'' \<rparr>] \<and>
   (\<exists>c. setup_database {} test_runtime bolt_db
      [nut_record ''6'',
       \<lparr> customer_id = Some ''C1'', order_id = None, item = Some ''Bolt'', quantity = Some 2,
         unit_price = Some 3, date = Some (2025, 6, 1), is_valid = False,
         error_message = Some ''Invalid or missing order_id'' \<rparr>] = Inl (NotNullViolation, c) \<and>
      orders (durable c) = orders bolt_db \<and> order_items (durable c) = order_items bolt_db)"
proof -
  let ?r = "\<lparr> customer_id = Some ''C1'', order_id = None, item = Some ''Bolt'', quantity = Some (2::int),
         unit_price = Some (3::int), date = Some (2025::int, 6::int, 1::int), is_valid = False,
         error_message = Some ''Invalid or missing order_id'' \<rparr>"
  have run: "valid_order_rows_flexible test_runtime
      [csv_row ''C1'' ''6'' ''Nut'' ''1'' ''9'' ''2025-06-01'',
       csv_row ''C1'' '''' ''Bolt'' ''2'' ''3'' ''2025-06-01''] = Inr [nut_record ''6'', ?r]"
    by code_simp
  have "fst (outcome (setup_database {} test_runtime bolt_db [nut_record ''6'', ?r])) =
      Some NotNullViolation"
    by code_simp
  then have "\<exists>c. setup_database {} test_runtime bolt_db [nut_record ''6'', ?r] =
      Inl (NotNullViolation, c)"
    using outcome_failed[of "setup_database {} test_runtime bolt_db [nut_record ''6'', ?r]"
        NotNullViolation]
    by (metis prod.collapse)
  then obtain c where
    c: "setup_database {} test_runtime bolt_db [nut_record ''6'', ?r] = Inl (NotNullViolation, c)"
    by blast
  from missing_order_id_aborts_sync[of ?r "[nut_record ''6'', ?r]" "{}" test_runtime bolt_db] c
  have "orders (durable c) = orders bolt_db \<and> order_items (durable c) = order_items bolt_db"
    by simp
  with run c show ?thesis by blast
qed

section \<open>The production tables against the batch\<close>




lemma sync_keys_without_missing_items:
  assumes sync: "sync_db R batch d = Inr d'"
    and items: "\<forall>r\<in>set batch. item r \<noteq> None \<and> item r \<noteq> Some []"
  shows "item_key ` set (order_items d') = {k. \<exists>r\<in>set batch. record_key R r = Some k}"
proof -
  from sync_db_items[OF sync] obtain ns where
    ns: "bound_rows R batch = Inr ns" and
    its: "order_items d' = synced_items (fold put_staging ns []) (order_items d)"
    by blast
  let ?S = "fold put_staging ns []"
  show ?thesis
  proof (intro equalityI subsetI)
    fix k assume "k \<in> item_key ` set (order_items d')"
    then obtain x where x: "x \<in> set (order_items d')" "k = item_key x" by auto
    then have "kept ?S x" unfolding its synced_items_def by simp
    then obtain s where s: "s \<in> set ?S" "s_order_id s = i_order_id x"
      "s_item s = None \<or> s_item s = Some (i_item x)" by (auto simp: kept_iff)
    from s(1) set_fold_put_staging[of ns "[]"] have "s \<in> set ns" by auto
    from bound_rows_member[OF ns this] obtain r where r: "r \<in> set batch" "bound_row R r = Inr s"
      by blast
    from items r(1) bound_row_fields(2)[OF r(2)] s(3)
    have "s_item s = Some (i_item x)" "i_item x \<noteq> []" by auto
    then have "item_key (item_of s) = (i_order_id x, i_item x)"
      using s(2) by (simp add: item_key_item_of item_or_blank_Some)
    then have "item_key (item_of s) = k" using x(2) by (simp add: item_key_def)
    with bound_row_fields(7)[OF r(2)] r(1)
    show "k \<in> {k. \<exists>r\<in>set batch. record_key R r = Some k}" by auto
  next
    fix k assume "k \<in> {k. \<exists>r\<in>set batch. record_key R r = Some k}"
    then obtain r where r: "r \<in> set batch" "record_key R r = Some k" by auto
    from record_key_present[OF sync r(1)] items r
    show "k \<in> item_key ` set (order_items d')" by auto
  qed
qed

section \<open>Duplicate rows of a batch\<close>










end
